theory Spec2Isabelle
  imports Complex_Main "HOL-Library.Multiset" "HOL-Library.Log_Nat"
begin

section \<open>JavaScript numbers used by the battle engine\<close>

text \<open>
  Counters, ratings and cell values are JavaScript numbers that only ever hold integers
  (they start from integer literals and change by \<open>++\<close>, \<open>--\<close> or an integer delta);
  they are modelled as \<open>int\<close>, which is exact up to \<open>2^53\<close>. The quotients
  \<open>filled / total\<close> are the only non-integer numbers. A quotient is kept as the exact
  rational (or one of the special values that a division by zero produces): comparing
  two quotients with the same positive denominator gives the same answer on the exact
  values and on the doubles, for counts below \<open>2^52\<close>. Where the code goes on computing
  with a quotient (the rounded percentages of the match summary), the model rounds to a
  double after each operation, as the machine does.
\<close>

datatype jsnum = Fin rat | PosInf | NegInf | NaN

definition js_div :: "int \<Rightarrow> int \<Rightarrow> jsnum" where
  "js_div a b =
     (if b \<noteq> 0 then Fin (of_int a / of_int b)
      else if 0 < a then PosInf else if a < 0 then NegInf else NaN)"

fun js_gt :: "jsnum \<Rightarrow> jsnum \<Rightarrow> bool" where
  "js_gt (Fin x) (Fin y) = (y < x)"
| "js_gt PosInf (Fin y) = True"
| "js_gt PosInf NegInf = True"
| "js_gt (Fin x) NegInf = True"
| "js_gt _ _ = False"

text \<open>
  Rounding a non-zero rational to the nearest double, ties to even, in the normal range
  (53 significant bits): \<open>double_exponent a\<close> is the \<open>e\<close> with \<open>2^e \<le> a < 2^(e+1)\<close>, and
  the result is the nearest multiple of \<open>2^(e-52)\<close>. Quotients and percentages of
  integers up to \<open>2^53\<close> stay in that range.
\<close>

definition pow2 :: "int \<Rightarrow> rat" where
  "pow2 e = (if 0 \<le> e then 2 ^ nat e else 1 / 2 ^ nat (- e))"

definition round_even :: "rat \<Rightarrow> int" where
  "round_even m =
     (let r = \<lfloor>m\<rfloor>; f = m - of_int r
      in if f < 1 / 2 then r else if 1 / 2 < f then r + 1 else if even r then r else r + 1)"

definition double_exponent :: "rat \<Rightarrow> int" where
  "double_exponent a =
     (let e0 = bitlen (fst (quotient_of a)) - bitlen (snd (quotient_of a))
      in if pow2 e0 \<le> a then e0 else e0 - 1)"

definition to_double :: "rat \<Rightarrow> rat" where
  "to_double x =
     (if x = 0 then 0
      else let a = \<bar>x\<bar>; u = pow2 (double_exponent a - 52)
           in sgn x * of_int (round_even (a / u)) * u)"

text \<open>
  \<open>Math.round(q * 100)\<close> for a quotient \<open>q = a / b\<close>: the division gives the double
  nearest to the exact quotient, the product is rounded to a double again, and
  \<open>Math.round\<close> takes the nearest integer of that double, ties going up. So
  \<open>Math.round((23 / 40) * 100)\<close> is 57, the product being the double just below 57.5.
  The special values are kept.
\<close>

fun js_round_pct :: "jsnum \<Rightarrow> jsnum" where
  "js_round_pct (Fin x) = Fin (of_int \<lfloor>to_double (to_double x * 100) + 1 / 2\<rfloor>)"
| "js_round_pct v = v"

text \<open>\<open>x || d\<close> on a number \<open>x\<close>: zero is falsy, every other integer is kept.\<close>

definition js_or :: "int \<Rightarrow> int \<Rightarrow> int" where
  "js_or x d = (if x = 0 then d else x)"

section \<open>Player: rating, PvP record and match history\<close>

datatype result = win | lose | draw

record matchData =
  md_result :: "result option"
  md_opponent :: string
  md_difficulty :: string
  md_playerProgress :: jsnum
  md_aiProgress :: jsnum
  md_timeUsed :: int

text \<open>
  A history entry is \<open>{...matchData, elo, eloDelta, date}\<close>; the date is the clock
  reading \<open>new Date().toISOString()\<close>, passed in.
\<close>

record matchEntry =
  me_summary :: matchData
  me_elo :: int
  me_eloDelta :: int
  me_date :: string

record player_data =
  xp :: nat
  coins :: nat
  level :: nat
  elo :: int
  pvpWins :: int
  pvpLosses :: int
  pvpDraws :: int
  matchHistory :: "matchEntry list"

definition createDefaultData :: player_data where
  "createDefaultData =
     \<lparr>xp = 0, coins = 0, level = 0, elo = 1000,
      pvpWins = 0, pvpLosses = 0, pvpDraws = 0, matchHistory = []\<rparr>"

text \<open>\<open>Math.floor(Math.sqrt(xp / 100))\<close>: the number of \<open>k \<ge> 1\<close> with \<open>100 k\<^sup>2 \<le> xp\<close>.\<close>

definition levelFromXP :: "nat \<Rightarrow> nat" where
  "levelFromXP x = length (filter (\<lambda>k. 100 * k * k \<le> x) [1..<Suc x])"

definition updateELO :: "int \<Rightarrow> matchData \<Rightarrow> string \<Rightarrow> player_data \<Rightarrow> player_data" where
  "updateELO delta md now d =
     (let d1 = d\<lparr>elo := max 0 (js_or (elo d) 1000 + delta)\<rparr>;
          d2 = (if md_result md = Some win then d1\<lparr>pvpWins := js_or (pvpWins d1) 0 + 1\<rparr>
                else if md_result md = Some lose then d1\<lparr>pvpLosses := js_or (pvpLosses d1) 0 + 1\<rparr>
                else d1\<lparr>pvpDraws := js_or (pvpDraws d1) 0 + 1\<rparr>);
          d3 = d2\<lparr>matchHistory :=
                 \<lparr>me_summary = md, me_elo = elo d2, me_eloDelta = delta, me_date = now\<rparr>
                 # matchHistory d2\<rparr>;
          d4 = (if 20 < length (matchHistory d3)
                then d3\<lparr>matchHistory := butlast (matchHistory d3)\<rparr> else d3)
      in if md_result md = Some win
         then d4\<lparr>coins := coins d4 + 15, xp := xp d4 + 75, level := levelFromXP (xp d4 + 75)\<rparr>
         else d4)"

definition getELO :: "player_data \<Rightarrow> int" where
  "getELO d = js_or (elo d) 1000"

definition getMatchHistory :: "player_data \<Rightarrow> matchEntry list" where
  "getMatchHistory d = matchHistory d"

text \<open>A sequence of rating updates, oldest first: each is (delta, summary, date).\<close>

fun updates :: "(int \<times> matchData \<times> string) list \<Rightarrow> player_data \<Rightarrow> player_data" where
  "updates [] d = d"
| "updates ((delta, md, now) # us) d = updates us (updateELO delta md now d)"

section \<open>PvP: the battle session\<close>

text \<open>
  A grid is a 9 by 9 array of numbers, as \<open>SudokuEngine.generate\<close> produces it and
  \<open>SudokuEngine.cloneGrid\<close> copies it (both are outside the sources at hand, so the
  generated pair and the seed are parameters of \<open>startBattle\<close>). It is modelled by its
  cell function on the indices below 9. Reading \<open>grid[row][col]\<close> with a row index
  of 9 or more raises a TypeError (\<open>undefined[col]\<close>); with a column index of 9 or
  more it gives \<open>undefined\<close>.
\<close>

type_synonym grid = "nat \<Rightarrow> nat \<Rightarrow> int"

datatype error = TypeError

definition grid_get :: "grid \<Rightarrow> nat \<Rightarrow> nat \<Rightarrow> error + int option" where
  "grid_get g r c = (if r < 9 then Inr (if c < 9 then Some (g r c) else None) else Inl TypeError)"

definition grid_set :: "grid \<Rightarrow> nat \<Rightarrow> nat \<Rightarrow> int \<Rightarrow> grid" where
  "grid_set g r c v = g(r := (g r)(c := v))"

definition cloneGrid :: "grid \<Rightarrow> grid" where
  "cloneGrid g = g"

definition grid_of_rows :: "int list list \<Rightarrow> grid" where
  "grid_of_rows rows = (\<lambda>r c. rows ! r ! c)"

record gen_data =
  g_puzzle :: grid
  g_solution :: grid

record cell =
  row :: nat
  col :: nat
  val :: int

record speed =
  speed_min :: nat
  speed_max :: nat

definition BATTLE_TIME :: int where
  "BATTLE_TIME = 600"

definition AI_NAMES :: "string list" where
  "AI_NAMES =
     [''SudokuMaster'', ''GridNinja'', ''PuzzleWiz'', ''NumberCrunch'',
      ''BrainStorm'', ''LogicLord'', ''CellSolver'', ''DigitDemon'',
      ''MindBender'', ''PuzzlePro'', ''GridGenius'', ''NumWizard'',
      ''SolveKing'', ''PuzzleAce'', ''BoardBoss'', ''ClueCracker'']"

text \<open>The avatars are eight pictographs; a session keeps the index of the one chosen.\<close>

definition AI_AVATARS_length :: nat where
  "AI_AVATARS_length = 8"

definition AI_SPEED :: "string \<Rightarrow> speed option" where
  "AI_SPEED = map_of
     [(''easy'', \<lparr>speed_min = 2000, speed_max = 5000\<rparr>),
      (''medium'', \<lparr>speed_min = 3000, speed_max = 7000\<rparr>),
      (''hard'', \<lparr>speed_min = 5000, speed_max = 10000\<rparr>),
      (''expert'', \<lparr>speed_min = 7000, speed_max = 14000\<rparr>),
      (''evil'', \<lparr>speed_min = 10000, speed_max = 20000\<rparr>)]"

record session =
  seed :: nat
  difficulty :: string
  puzzle :: grid
  solution :: grid
  original :: grid
  playerBoard :: grid
  playerCellsFilled :: int
  playerMistakes :: int
  playerFinished :: bool
  aiName :: string
  aiAvatar :: nat
  aiCellsFilled :: int
  aiTotalCells :: int
  aiCellsQueue :: "cell list"
  aiFinished :: bool
  aiIntervalId :: "nat option"
  aiSpeed :: speed
  timeRemaining :: int
  timerIntervalId :: "nat option"
  started :: bool
  ended :: bool
  result :: "result option"
  eloDelta :: int

section \<open>The host: timers, callbacks, the random source\<close>

text \<open>
  The callbacks that Presentation hands to the engine are opaque: a flag says whether one
  was supplied, and each invocation is recorded in \<open>events\<close>. They are assumed not to
  call back into the engine while they run.

  The closures that \<open>beginBattle\<close> and \<open>scheduleNextAICell\<close> arm read the module
  variable \<open>battle\<close> when they fire; they capture only the callbacks. An armed timer is
  therefore its id, whether it repeats (\<open>setInterval\<close>) or fires once (\<open>setTimeout\<close>),
  and the captured callbacks. Real time is abstracted: any armed timer may fire next.
\<close>

datatype event = OnTimerTick int | OnAIProgress int int | OnBattleEnd

datatype handler =
    TimerTick bool bool  \<comment> \<open>captures onTimerTick, onBattleEnd\<close>
  | AIStep bool bool  \<comment> \<open>captures onAIProgress, onBattleEnd\<close>

record timer =
  tid :: nat
  repeating :: bool
  handler :: handler

record world =
  battle :: "session option"
  pdata :: player_data
  timers :: "timer list"
  nextTimerId :: nat
  events :: "event list"

definition setInterval :: "handler \<Rightarrow> world \<Rightarrow> nat \<times> world" where
  "setInterval h w =
     (nextTimerId w,
      w\<lparr>timers := timers w @ [\<lparr>tid = nextTimerId w, repeating = True, handler = h\<rparr>],
        nextTimerId := Suc (nextTimerId w)\<rparr>)"

definition setTimeout :: "handler \<Rightarrow> world \<Rightarrow> nat \<times> world" where
  "setTimeout h w =
     (nextTimerId w,
      w\<lparr>timers := timers w @ [\<lparr>tid = nextTimerId w, repeating = False, handler = h\<rparr>],
        nextTimerId := Suc (nextTimerId w)\<rparr>)"

text \<open>\<open>clearInterval(id)\<close> and \<open>clearTimeout(id)\<close>; a null id clears nothing.\<close>

definition clearTimer :: "nat option \<Rightarrow> world \<Rightarrow> world" where
  "clearTimer i w =
     (case i of None \<Rightarrow> w
      | Some k \<Rightarrow> w\<lparr>timers := filter (\<lambda>t. tid t \<noteq> k) (timers w)\<rparr>)"

definition emit :: "bool \<Rightarrow> event \<Rightarrow> world \<Rightarrow> world" where
  "emit supplied e w = (if supplied then w\<lparr>events := events w @ [e]\<rparr> else w)"

text \<open>
  \<open>Math.random()\<close> is a sequence of draws, each specified to lie in \<open>[0, 1)\<close>;
  \<open>rand_index x n\<close> is \<open>Math.floor(x * n)\<close>.
\<close>

definition rand_index :: "rat \<Rightarrow> nat \<Rightarrow> nat" where
  "rand_index x n = nat \<lfloor>x * of_nat n\<rfloor>"

definition unit_draws :: "(nat \<Rightarrow> rat) \<Rightarrow> bool" where
  "unit_draws rnd = (\<forall>k. 0 \<le> rnd k \<and> rnd k < 1)"

definition swap :: "nat \<Rightarrow> nat \<Rightarrow> 'a list \<Rightarrow> 'a list" where
  "swap i j arr = arr[i := arr ! j, j := arr ! i]"

text \<open>
  \<open>for (let i = arr.length - 1; i > 0; i--)\<close>: the loop at index \<open>i\<close>, taking its
  draws from position \<open>k\<close> on.
\<close>

fun shuffle_from :: "(nat \<Rightarrow> rat) \<Rightarrow> nat \<Rightarrow> nat \<Rightarrow> 'a list \<Rightarrow> 'a list" where
  "shuffle_from rnd k 0 arr = arr"
| "shuffle_from rnd k (Suc i) arr =
     shuffle_from rnd (Suc k) i (swap (Suc i) (rand_index (rnd k) (Suc i + 1)) arr)"

definition shuffleArray :: "(nat \<Rightarrow> rat) \<Rightarrow> 'a list \<Rightarrow> 'a list" where
  "shuffleArray rnd arr = shuffle_from rnd 0 (length arr - 1) arr"

section \<open>PvP: operations\<close>

definition emptyCells :: "grid \<Rightarrow> grid \<Rightarrow> cell list" where
  "emptyCells puz sol =
     concat (map (\<lambda>r. concat (map (\<lambda>c.
       if puz r c = 0 then [\<lparr>row = r, col = c, val = sol r c\<rparr>] else []) [0..<9])) [0..<9])"

text \<open>The session object that \<open>startBattle\<close> builds and stores in \<open>battle\<close>.\<close>

definition newSession :: "string \<Rightarrow> nat \<Rightarrow> gen_data \<Rightarrow> (nat \<Rightarrow> rat) \<Rightarrow> session" where
  "newSession diff sd gd rnd =
     (let cells = emptyCells (g_puzzle gd) (g_solution gd);
          queue = shuffleArray rnd cells;
          k = length cells - 1;
          name = AI_NAMES ! rand_index (rnd k) (length AI_NAMES);
          avatar = rand_index (rnd (Suc k)) AI_AVATARS_length;
          spd = (case AI_SPEED diff of Some s \<Rightarrow> s
                 | None \<Rightarrow> \<lparr>speed_min = 3000, speed_max = 7000\<rparr>)
      in \<lparr>seed = sd, difficulty = diff,
          puzzle = g_puzzle gd, solution = g_solution gd,
          original = cloneGrid (g_puzzle gd),
          playerBoard = cloneGrid (g_puzzle gd),
          playerCellsFilled = 0, playerMistakes = 0, playerFinished = False,
          aiName = name, aiAvatar = avatar,
          aiCellsFilled = 0, aiTotalCells = int (length queue), aiCellsQueue = queue,
          aiFinished = False, aiIntervalId = None, aiSpeed = spd,
          timeRemaining = BATTLE_TIME, timerIntervalId = None,
          started = False, ended = False,
          result = None, eloDelta = 0\<rparr>)"

definition startBattle :: "string \<Rightarrow> nat \<Rightarrow> gen_data \<Rightarrow> (nat \<Rightarrow> rat) \<Rightarrow> world \<Rightarrow> world" where
  "startBattle diff sd gd rnd w = w\<lparr>battle := Some (newSession diff sd gd rnd)\<rparr>"

definition summary :: "session \<Rightarrow> matchData" where
  "summary b =
     \<lparr>md_result = result b, md_opponent = aiName b, md_difficulty = difficulty b,
      md_playerProgress = js_round_pct (js_div (playerCellsFilled b) (aiTotalCells b)),
      md_aiProgress = js_round_pct (js_div (aiCellsFilled b) (aiTotalCells b)),
      md_timeUsed = BATTLE_TIME - timeRemaining b\<rparr>"

datatype reason = player_finished | ai_finished | timeout | quit

text \<open>The result and rating delta that \<open>endBattle\<close> assigns, in the order of its tests.\<close>

definition determine :: "reason \<Rightarrow> session \<Rightarrow> session" where
  "determine rsn b =
     (if rsn = player_finished \<or> playerFinished b then b\<lparr>result := Some win, eloDelta := 25\<rparr>
      else if rsn = ai_finished then b\<lparr>result := Some lose, eloDelta := - 25\<rparr>
      else if rsn = timeout then
        (let playerPct = js_div (playerCellsFilled b) (aiTotalCells b);
             aiPct = js_div (aiCellsFilled b) (aiTotalCells b)
         in if js_gt playerPct aiPct then b\<lparr>result := Some win, eloDelta := 15\<rparr>
            else if js_gt aiPct playerPct then b\<lparr>result := Some lose, eloDelta := - 15\<rparr>
            else b\<lparr>result := Some draw, eloDelta := 0\<rparr>)
      else if rsn = quit then b\<lparr>result := Some lose, eloDelta := - 25\<rparr>
      else b)"

definition endBattle :: "reason \<Rightarrow> bool \<Rightarrow> string \<Rightarrow> world \<Rightarrow> error + world" where
  "endBattle rsn callback now w =
     (case battle w of None \<Rightarrow> Inl TypeError
      | Some b \<Rightarrow>
          if ended b then Inr w
          else
            let b1 = b\<lparr>ended := True\<rparr>;
                w1 = clearTimer (aiIntervalId b1) (clearTimer (timerIntervalId b1) w);
                b2 = determine rsn b1;
                w2 = w1\<lparr>battle := Some b2,
                       pdata := updateELO (eloDelta b2) (summary b2) now (pdata w1)\<rparr>
            in Inr (emit callback OnBattleEnd w2))"

definition scheduleNextAICell :: "bool \<Rightarrow> bool \<Rightarrow> world \<Rightarrow> error + world" where
  "scheduleNextAICell onAIProgress onBattleEnd w =
     (case battle w of None \<Rightarrow> Inl TypeError
      | Some b \<Rightarrow>
          if ended b \<or> aiFinished b then Inr w
          else
            let (i, w1) = setTimeout (AIStep onAIProgress onBattleEnd) w
            in Inr (w1\<lparr>battle := Some (b\<lparr>aiIntervalId := Some i\<rparr>)\<rparr>))"

text \<open>The body of the \<open>setInterval\<close> callback of \<open>beginBattle\<close>.\<close>

definition timerCallback :: "bool \<Rightarrow> bool \<Rightarrow> string \<Rightarrow> world \<Rightarrow> error + world" where
  "timerCallback onTimerTick onBattleEnd now w =
     (case battle w of None \<Rightarrow> Inl TypeError
      | Some b \<Rightarrow>
          if ended b then Inr w
          else
            let b1 = b\<lparr>timeRemaining := timeRemaining b - 1\<rparr>;
                w1 = emit onTimerTick (OnTimerTick (timeRemaining b1)) (w\<lparr>battle := Some b1\<rparr>)
            in if timeRemaining b1 \<le> 0 then endBattle timeout onBattleEnd now w1 else Inr w1)"

text \<open>The body of the \<open>setTimeout\<close> callback of \<open>scheduleNextAICell\<close>.\<close>

definition aiCallback :: "bool \<Rightarrow> bool \<Rightarrow> string \<Rightarrow> world \<Rightarrow> error + world" where
  "aiCallback onAIProgress onBattleEnd now w =
     (case battle w of None \<Rightarrow> Inl TypeError
      | Some b \<Rightarrow>
          if ended b then Inr w
          else
            let b1 = b\<lparr>aiCellsFilled := aiCellsFilled b + 1\<rparr>;
                w1 = emit onAIProgress (OnAIProgress (aiCellsFilled b1) (aiTotalCells b1))
                       (w\<lparr>battle := Some b1\<rparr>)
            in if aiTotalCells b1 \<le> aiCellsFilled b1 then
                 (let b2 = b1\<lparr>aiFinished := True\<rparr>;
                      w2 = w1\<lparr>battle := Some b2\<rparr>
                  in if \<not> playerFinished b2 then endBattle ai_finished onBattleEnd now w2
                     else Inr w2)
               else scheduleNextAICell onAIProgress onBattleEnd w1)"

definition beginBattle :: "bool \<Rightarrow> bool \<Rightarrow> bool \<Rightarrow> world \<Rightarrow> error + world" where
  "beginBattle onAIProgress onTimerTick onBattleEnd w =
     (case battle w of None \<Rightarrow> Inr w
      | Some b \<Rightarrow>
          if started b then Inr w
          else
            let (i, w1) = setInterval (TimerTick onTimerTick onBattleEnd) w;
                w2 = w1\<lparr>battle := Some (b\<lparr>started := True, timerIntervalId := Some i\<rparr>)\<rparr>
            in scheduleNextAICell onAIProgress onBattleEnd w2)"

text \<open>
  A timer fires: nothing happens unless it is armed; a one-shot timer is disarmed as it
  fires; then the callback runs.
\<close>

definition fire :: "nat \<Rightarrow> string \<Rightarrow> world \<Rightarrow> error + world" where
  "fire i now w =
     (case find (\<lambda>t. tid t = i) (timers w) of None \<Rightarrow> Inr w
      | Some t \<Rightarrow>
          let w1 = (if repeating t then w
                    else w\<lparr>timers := filter (\<lambda>u. tid u \<noteq> i) (timers w)\<rparr>)
          in (case handler t of
                TimerTick onTimerTick onBattleEnd \<Rightarrow> timerCallback onTimerTick onBattleEnd now w1
              | AIStep onAIProgress onBattleEnd \<Rightarrow> aiCallback onAIProgress onBattleEnd now w1))"

record place_result =
  isCorrect :: bool
  finished :: bool

text \<open>The scan of all 81 cells for agreement with the solution.\<close>

definition allFilled :: "session \<Rightarrow> bool" where
  "allFilled b =
     list_all (\<lambda>r. list_all (\<lambda>c. playerBoard b r c = solution b r c) [0..<9]) [0..<9]"

text \<open>\<open>playerPlace\<close> returns null (\<open>None\<close>) or a result object, next to the new state.\<close>

definition playerPlace :: "nat \<Rightarrow> nat \<Rightarrow> int \<Rightarrow> world \<Rightarrow> error + (place_result option \<times> world)" where
  "playerPlace r c num w =
     (case battle w of None \<Rightarrow> Inr (None, w)
      | Some b \<Rightarrow>
          if ended b \<or> playerFinished b then Inr (None, w)
          else
            (case grid_get (original b) r c of Inl e \<Rightarrow> Inl e
             | Inr v \<Rightarrow>
                 if v \<noteq> Some 0 then Inr (None, w)
                 else
                   let correct = solution b r c;
                       ok = (num = correct);
                       b1 = b\<lparr>playerBoard := grid_set (playerBoard b) r c num\<rparr>
                   in if ok then
                        (let b2 = b1\<lparr>playerCellsFilled := playerCellsFilled b1 + 1\<rparr>
                         in if allFilled b2
                            then Inr (Some \<lparr>isCorrect = True, finished = True\<rparr>,
                                      w\<lparr>battle := Some (b2\<lparr>playerFinished := True\<rparr>)\<rparr>)
                            else Inr (Some \<lparr>isCorrect = ok, finished = False\<rparr>,
                                      w\<lparr>battle := Some b2\<rparr>))
                      else
                        Inr (Some \<lparr>isCorrect = ok, finished = False\<rparr>,
                             w\<lparr>battle := Some (b1\<lparr>playerMistakes := playerMistakes b1 + 1\<rparr>)\<rparr>)))"

definition playerErase :: "nat \<Rightarrow> nat \<Rightarrow> world \<Rightarrow> error + world" where
  "playerErase r c w =
     (case battle w of None \<Rightarrow> Inr w
      | Some b \<Rightarrow>
          if ended b then Inr w
          else
            (case grid_get (original b) r c of Inl e \<Rightarrow> Inl e
             | Inr v \<Rightarrow>
                 if v \<noteq> Some 0 then Inr w
                 else
                   let b1 = (if playerBoard b r c \<noteq> 0 \<and> playerBoard b r c = solution b r c
                             then b\<lparr>playerCellsFilled := playerCellsFilled b - 1\<rparr> else b)
                   in Inr (w\<lparr>battle := Some (b1\<lparr>playerBoard := grid_set (playerBoard b1) r c 0\<rparr>)\<rparr>)))"

definition playerFinish :: "bool \<Rightarrow> string \<Rightarrow> world \<Rightarrow> error + world" where
  "playerFinish callback now w =
     (case battle w of None \<Rightarrow> Inr w
      | Some b \<Rightarrow>
          if ended b then Inr w
          else endBattle player_finished callback now (w\<lparr>battle := Some (b\<lparr>playerFinished := True\<rparr>)\<rparr>))"

definition quitBattle :: "bool \<Rightarrow> string \<Rightarrow> world \<Rightarrow> error + world" where
  "quitBattle callback now w =
     (case battle w of None \<Rightarrow> Inr w
      | Some b \<Rightarrow> if ended b then Inr w else endBattle quit callback now w)"

definition getBattle :: "world \<Rightarrow> session option" where
  "getBattle w = battle w"

section \<open>Runs of the engine\<close>

text \<open>
  What Presentation and the host can do to the engine, one call at a time. A run stops
  at the first exception.
\<close>

datatype call =
    StartBattle string nat gen_data "nat \<Rightarrow> rat"
  | BeginBattle bool bool bool
  | PlayerPlace nat nat int
  | PlayerErase nat nat
  | PlayerFinish bool string
  | QuitBattle bool string
  | Fire nat string

fun step :: "call \<Rightarrow> world \<Rightarrow> error + world" where
  "step (StartBattle diff sd gd rnd) w = Inr (startBattle diff sd gd rnd w)"
| "step (BeginBattle p t e) w = beginBattle p t e w"
| "step (PlayerPlace r c num) w = map_sum id snd (playerPlace r c num w)"
| "step (PlayerErase r c) w = playerErase r c w"
| "step (PlayerFinish cb now) w = playerFinish cb now w"
| "step (QuitBattle cb now) w = quitBattle cb now w"
| "step (Fire i now) w = fire i now w"

fun run :: "call list \<Rightarrow> world \<Rightarrow> error + world" where
  "run [] w = Inr w"
| "run (x # xs) w = (case step x w of Inl e \<Rightarrow> Inl e | Inr w1 \<Rightarrow> run xs w1)"

text \<open>The engine as the page loads it: no session, default player data, no timer.\<close>

definition init_world :: world where
  "init_world =
     \<lparr>battle = None, pdata = createDefaultData, timers = [], nextTimerId = 0, events = []\<rparr>"

text \<open>The session of a run's final state, if the run ended without exception.\<close>

definition session_of :: "error + world \<Rightarrow> session option" where
  "session_of x = (case x of Inl e \<Rightarrow> None | Inr w \<Rightarrow> battle w)"

text \<open>The number of non-original cells on which the player's board agrees with the solution.\<close>

definition correctCells :: "session \<Rightarrow> int" where
  "correctCells b =
     int (length (filter (\<lambda>(r, c). original b r c = 0 \<and> playerBoard b r c = solution b r c)
       (List.product [0..<9] [0..<9])))"

section \<open>A concrete puzzle\<close>

definition solution0 :: grid where
  "solution0 = grid_of_rows
     [[5, 3, 4, 6, 7, 8, 9, 1, 2],
      [6, 7, 2, 1, 9, 5, 3, 4, 8],
      [1, 9, 8, 3, 4, 2, 5, 6, 7],
      [8, 5, 9, 7, 6, 1, 4, 2, 3],
      [4, 2, 6, 8, 5, 3, 7, 9, 1],
      [7, 1, 3, 9, 2, 4, 8, 5, 6],
      [9, 6, 1, 5, 3, 7, 2, 8, 4],
      [2, 8, 7, 4, 1, 9, 6, 3, 5],
      [3, 4, 5, 2, 8, 6, 1, 7, 9]]"

definition puzzle0 :: grid where
  "puzzle0 = grid_of_rows
     [[5, 3, 0, 0, 7, 0, 0, 0, 0],
      [6, 0, 0, 1, 9, 5, 0, 0, 0],
      [0, 9, 8, 0, 0, 0, 0, 6, 0],
      [8, 0, 0, 0, 6, 0, 0, 0, 3],
      [4, 0, 0, 8, 0, 3, 0, 0, 1],
      [7, 0, 0, 0, 2, 0, 0, 0, 6],
      [0, 6, 0, 0, 0, 0, 2, 8, 0],
      [0, 0, 0, 4, 1, 9, 0, 0, 5],
      [0, 0, 0, 0, 8, 0, 0, 7, 9]]"

definition gen0 :: gen_data where
  "gen0 = \<lparr>g_puzzle = puzzle0, g_solution = solution0\<rparr>"

definition rnd0 :: "nat \<Rightarrow> rat" where
  "rnd0 k = 1 / 2"

section \<open>Reference readings used in the statements\<close>

text \<open>
  The history entries that a sequence of updates produces, oldest first, each with the
  rating that resulted from its update.
\<close>

fun entries :: "(int \<times> matchData \<times> string) list \<Rightarrow> player_data \<Rightarrow> matchEntry list" where
  "entries [] d = []"
| "entries ((delta, md, now) # us) d =
     \<lparr>me_summary = md, me_elo = elo (updateELO delta md now d),
      me_eloDelta = delta, me_date = now\<rparr>
     # entries us (updateELO delta md now d)"

text \<open>The empty cells of a puzzle, and an empty cell tagged with its correct value.\<close>

definition empty_positions :: "grid \<Rightarrow> (nat \<times> nat) set" where
  "empty_positions puz = {(r, c). r < 9 \<and> c < 9 \<and> puz r c = 0}"

definition tagged :: "grid \<Rightarrow> nat \<times> nat \<Rightarrow> cell" where
  "tagged sol p = \<lparr>row = fst p, col = snd p, val = sol (fst p) (snd p)\<rparr>"

definition md0 :: matchData where
  "md0 = \<lparr>md_result = Some lose, md_opponent = ''GridNinja'', md_difficulty = ''easy'',
          md_playerProgress = Fin 10, md_aiProgress = Fin 100, md_timeUsed = 120\<rparr>"

text \<open>
  The number of PvP games on record: every call of \<open>updateELO\<close> adds exactly one to it,
  so it counts the rating updates. \<open>ends\<close> counts the invocations of the completion
  callback.
\<close>

definition pvpGames :: "player_data \<Rightarrow> int" where
  "pvpGames d = pvpWins d + pvpLosses d + pvpDraws d"

definition ends :: "event list \<Rightarrow> nat" where
  "ends es = length (filter (\<lambda>e. e = OnBattleEnd) es)"

definition is_start :: "call \<Rightarrow> bool" where
  "is_start x = (case x of StartBattle diff sd gd rnd \<Rightarrow> True | _ \<Rightarrow> False)"

text \<open>
  Two kinds of transition: one that leaves the rating data, the number of completion
  callbacks and the session's \<open>ended\<close> flag alone, and one that ends a live session.
\<close>

definition quiet :: "world \<Rightarrow> world \<Rightarrow> bool" where
  "quiet w w' = (pdata w' = pdata w \<and> ends (events w') = ends (events w) \<and>
     map_option ended (battle w') = map_option ended (battle w))"

definition closing :: "world \<Rightarrow> world \<Rightarrow> bool" where
  "closing w w' =
     (map_option ended (battle w) = Some False \<and> map_option ended (battle w') = Some True \<and>
      pvpGames (pdata w') = pvpGames (pdata w) + 1 \<and> ends (events w') \<le> ends (events w) + 1)"

text \<open>A fresh session on the concrete puzzle, and a puzzle with two empty cells.\<close>

definition world1 :: world where
  "world1 = startBattle ''medium'' 7 gen0 rnd0 init_world"

definition session1 :: session where
  "session1 = the (battle world1)"

definition puzzle1 :: grid where
  "puzzle1 = grid_set (grid_set solution0 0 2 0) 4 4 0"

definition gen1 :: gen_data where
  "gen1 = \<lparr>g_puzzle = puzzle1, g_solution = solution0\<rparr>"

text \<open>The spec's timeout example: 40 player cells, 30 AI cells, 50 in total.\<close>

definition world40 :: world where
  "world40 = world1\<lparr>battle := Some (session1\<lparr>playerCellsFilled := 40, aiCellsFilled := 30, aiTotalCells := 50\<rparr>)\<rparr>"

text \<open>
  The engine after one session was started and begun and a second one started and begun:
  timers 0 and 1 were armed for the first session, timers 2 and 3 for the second.
\<close>

definition world_superseded :: world where
  "world_superseded =
     \<lparr>battle = Some ((newSession ''medium'' 8 gen0 rnd0)
          \<lparr>started := True, timerIntervalId := Some 2, aiIntervalId := Some 3\<rparr>),
      pdata = createDefaultData,
      timers = [\<lparr>tid = 0, repeating = True, handler = TimerTick True True\<rparr>,
                \<lparr>tid = 1, repeating = False, handler = AIStep True True\<rparr>,
                \<lparr>tid = 2, repeating = True, handler = TimerTick True True\<rparr>,
                \<lparr>tid = 3, repeating = False, handler = AIStep True True\<rparr>],
      nextTimerId = 4, events = []\<rparr>"

section \<open>Rounded percentages\<close>

lemma js_round_pct_examples:
  "js_round_pct (js_div 23 40) = Fin 57"
  "js_round_pct (js_div 1 40) = Fin 3"
  "js_round_pct (js_div 40 50) = Fin 80"
  "js_round_pct (js_div 1 3) = Fin 33"
  "js_round_pct (js_div 0 0) = NaN"
  by code_simp+

section \<open>Rating update: properties\<close>

lemma elo_updateELO:
  "elo (updateELO delta md now d) = max 0 (js_or (elo d) 1000 + delta)"
  by (simp add: updateELO_def Let_def)

lemma matchHistory_updateELO:
  "matchHistory (updateELO delta md now d) =
     (let e = \<lparr>me_summary = md, me_elo = max 0 (js_or (elo d) 1000 + delta),
                me_eloDelta = delta, me_date = now\<rparr>
      in if 20 < Suc (length (matchHistory d)) then butlast (e # matchHistory d)
         else e # matchHistory d)"
  by (auto simp: updateELO_def Let_def)

text \<open>
  C7. Whatever the stored rating and the delta, the rating after \<open>updateELO\<close> is not
  negative: it is the larger of 0 and the current rating (as \<open>getELO\<close> reads it) plus
  the delta. A rating of 10 with delta -25 becomes 0.
\<close>

theorem updateELO_rating_floor:
  "0 \<le> elo (updateELO delta md now d) \<and>
   elo (updateELO delta md now d) = max 0 (getELO d + delta) \<and>
   elo (updateELO (- 25) md now (d\<lparr>elo := 10\<rparr>)) = 0"
  by (simp add: elo_updateELO getELO_def js_or_def)

text \<open>
  C10. A stored rating of exactly 0 is read as the default 1000, by \<open>updateELO\<close> and by
  \<open>getELO\<close>: the update gives \<open>max 0 (1000 + delta)\<close>. A rating of 10 that a loss of
  25 clamps to 0 becomes 975 with the next loss of 25.
\<close>

theorem updateELO_zero_rating_reads_default:
  "elo (updateELO delta md now (d\<lparr>elo := 0\<rparr>)) = max 0 (1000 + delta) \<and>
   getELO (d\<lparr>elo := 0\<rparr>) = 1000 \<and>
   elo (updateELO (- 25) md now (d\<lparr>elo := 10\<rparr>)) = 0 \<and>
   elo (updateELO (- 25) md2 now2 (updateELO (- 25) md now (d\<lparr>elo := 10\<rparr>))) = 975"
  by (simp add: elo_updateELO getELO_def js_or_def)

subsection \<open>The match history\<close>

lemma butlast_take20:
  assumes "length xs \<le> 20"
  shows "(if 20 < Suc (length xs) then butlast (e # xs) else e # xs) = take 20 (e # xs)"
proof (cases "length xs = 20")
  case True
  then have "butlast (e # xs) = take 20 (e # xs)"
    by (simp add: butlast_conv_take del: butlast.simps)
  with True show ?thesis by simp
next
  case False
  with assms have "length xs < 20" by simp
  then show ?thesis by simp
qed

lemma hist_step:
  "length (matchHistory d) \<le> 20 \<Longrightarrow>
   matchHistory (updateELO delta md now d) =
     take 20 (\<lparr>me_summary = md, me_elo = elo (updateELO delta md now d),
               me_eloDelta = delta, me_date = now\<rparr> # matchHistory d)"
  using butlast_take20[of "matchHistory d"]
  by (simp add: matchHistory_updateELO elo_updateELO Let_def)

lemma hist_len:
  "length (matchHistory d) \<le> 20 \<Longrightarrow> length (matchHistory (updateELO delta md now d)) \<le> 20"
  by (simp add: hist_step)

lemma take_append_take: "m \<le> n \<Longrightarrow> take m (xs @ take n ys) = take m (xs @ ys)"
  by (induction xs arbitrary: m) (auto simp: take_Cons' min_def)

lemma hist_updates:
  "length (matchHistory d) \<le> 20 \<Longrightarrow>
   matchHistory (updates us d) = take 20 (rev (entries us d) @ matchHistory d)"
proof (induction us arbitrary: d)
  case Nil
  then show ?case by simp
next
  case (Cons u us)
  obtain delta md now where u: "u = (delta, md, now)" by (cases u) auto
  let ?d = "updateELO delta md now d"
  let ?e = "\<lparr>me_summary = md, me_elo = elo ?d, me_eloDelta = delta, me_date = now\<rparr>"
  have len: "length (matchHistory ?d) \<le> 20" using Cons.prems by (rule hist_len)
  have "matchHistory (updates (u # us) d) = take 20 (rev (entries us ?d) @ matchHistory ?d)"
    using Cons.IH[OF len] u by simp
  also have "matchHistory ?d = take 20 (?e # matchHistory d)"
    using Cons.prems by (rule hist_step)
  also have "take 20 (rev (entries us ?d) @ take 20 (?e # matchHistory d))
      = take 20 (rev (entries us ?d) @ ?e # matchHistory d)"
    by (rule take_append_take) simp
  finally show ?case using u by simp
qed

text \<open>
  C8. Starting from a history of at most 20 entries (the default data has none), every
  update puts its record in front and keeps the first 20, so the oldest entry goes when
  there would be 21; after any sequence of updates the history is the 20 most recent
  records, most recent first, and never longer than 20.
\<close>

theorem matchHistory_bounded_recent_first:
  assumes "length (getMatchHistory d) \<le> 20"
  shows "getMatchHistory (updateELO delta md now d) =
           take 20 (\<lparr>me_summary = md, me_elo = elo (updateELO delta md now d),
                     me_eloDelta = delta, me_date = now\<rparr> # getMatchHistory d)
         \<and> getMatchHistory (updates us d) = take 20 (rev (entries us d) @ getMatchHistory d)
         \<and> length (getMatchHistory (updates us d)) \<le> 20"
  using assms hist_step[of d delta md now] hist_updates[of d us]
  by (simp add: getMatchHistory_def)

theorem matchHistory_bounded_recent_first_witness:
  "length (getMatchHistory createDefaultData) \<le> 20 \<and>
   map me_date (getMatchHistory
     (updates [(- 25, md0, ''day1''), (15, md0, ''day2'')] createDefaultData)) = [''day2'', ''day1''] \<and>
   length (getMatchHistory (updates (replicate 23 (- 25, md0, ''day'')) createDefaultData)) \<le> 20"
proof -
  have h: "length (getMatchHistory createDefaultData) \<le> 20"
    by (simp add: getMatchHistory_def createDefaultData_def)
  show ?thesis
    using h
      matchHistory_bounded_recent_first[OF h, of "- 25" md0 "''day''"
        "[(- 25, md0, ''day1''), (15, md0, ''day2'')]"]
      matchHistory_bounded_recent_first[OF h, of "- 25" md0 "''day''"
        "replicate 23 (- 25, md0, ''day'')"]
    by (simp add: getMatchHistory_def createDefaultData_def)
qed

section \<open>The AI queue\<close>

lemma rand_index_lt:
  assumes "0 \<le> x" "x < 1" "0 < n"
  shows "rand_index x n < n"
proof -
  have "x * of_nat n < of_nat n" using assms by simp
  then have "\<lfloor>x * of_nat n\<rfloor> < int n" by (simp add: floor_less_iff)
  moreover have "0 \<le> \<lfloor>x * of_nat n\<rfloor>" using assms by simp
  ultimately show ?thesis unfolding rand_index_def by linarith
qed

lemma swap_mset: "i < length xs \<Longrightarrow> j < length xs \<Longrightarrow> mset (swap i j xs) = mset xs"
  unfolding swap_def by (simp add: mset_swap)

lemma length_swap: "length (swap i j xs) = length xs"
  by (simp add: swap_def)

lemma length_shuffle_from: "length (shuffle_from rnd k i arr) = length arr"
  by (induction i arbitrary: k arr) (simp_all add: length_swap)

lemma length_shuffleArray: "length (shuffleArray rnd arr) = length arr"
  by (simp add: shuffleArray_def length_shuffle_from)

lemma shuffle_from_mset:
  "unit_draws rnd \<Longrightarrow> i < length arr \<Longrightarrow> mset (shuffle_from rnd k i arr) = mset arr"
proof (induction i arbitrary: k arr)
  case 0
  then show ?case by simp
next
  case (Suc i)
  have "rand_index (rnd k) (Suc i + 1) < Suc i + 1"
    using Suc.prems(1) by (intro rand_index_lt) (simp_all add: unit_draws_def)
  then have j: "rand_index (rnd k) (Suc i + 1) < length arr" using Suc.prems(2) by simp
  have "mset (swap (Suc i) (rand_index (rnd k) (Suc i + 1)) arr) = mset arr"
    using Suc.prems(2) j by (rule swap_mset)
  moreover have "i < length (swap (Suc i) (rand_index (rnd k) (Suc i + 1)) arr)"
    using Suc.prems(2) by (simp add: length_swap)
  ultimately show ?case using Suc.IH[OF Suc.prems(1)] by simp
qed

lemma shuffleArray_mset: "unit_draws rnd \<Longrightarrow> mset (shuffleArray rnd arr) = mset arr"
proof (cases arr)
  case Nil
  then show ?thesis by (simp add: shuffleArray_def)
next
  case (Cons a as)
  assume "unit_draws rnd"
  then show ?thesis unfolding shuffleArray_def
    by (rule shuffle_from_mset) (simp add: Cons)
qed

lemma emptyCells_eq:
  "emptyCells puz sol =
     map (tagged sol) (filter (\<lambda>(r, c). puz r c = 0) (List.product [0..<9] [0..<9]))"
proof -
  have inner: "concat (map (\<lambda>c. if puz r c = 0 then [\<lparr>row = r, col = c, val = sol r c\<rparr>] else []) ys)
        = map (tagged sol) (filter (\<lambda>(r, c). puz r c = 0) (map (Pair r) ys))" for r ys
    by (induction ys) (auto simp: tagged_def)
  have "concat (map (\<lambda>r. concat (map (\<lambda>c.
          if puz r c = 0 then [\<lparr>row = r, col = c, val = sol r c\<rparr>] else []) ys)) xs)
     = map (tagged sol) (filter (\<lambda>(r, c). puz r c = 0) (List.product xs ys))" for xs ys
    by (induction xs) (simp_all add: inner)
  then show ?thesis by (simp add: emptyCells_def)
qed

lemma inj_tagged: "inj_on (tagged sol) A"
  by (auto simp: inj_on_def tagged_def prod_eq_iff)

lemma distinct_emptyCells: "distinct (emptyCells puz sol)"
  unfolding emptyCells_eq
  by (rule distinct_map[THEN iffD2]) (simp add: distinct_product inj_tagged)

lemma set_emptyCells: "set (emptyCells puz sol) = tagged sol ` empty_positions puz"
  unfolding emptyCells_eq empty_positions_def by auto

lemma length_emptyCells: "length (emptyCells puz sol) = card (empty_positions puz)"
proof -
  have "length (emptyCells puz sol) = card (set (emptyCells puz sol))"
    using distinct_emptyCells by (simp add: distinct_card)
  also have "\<dots> = card (empty_positions puz)"
    unfolding set_emptyCells by (rule card_image) (rule inj_tagged)
  finally show ?thesis .
qed

lemma newSession_fields [simp]:
  "seed (newSession diff sd gd rnd) = sd"
  "difficulty (newSession diff sd gd rnd) = diff"
  "puzzle (newSession diff sd gd rnd) = g_puzzle gd"
  "solution (newSession diff sd gd rnd) = g_solution gd"
  "original (newSession diff sd gd rnd) = g_puzzle gd"
  "playerBoard (newSession diff sd gd rnd) = g_puzzle gd"
  "playerCellsFilled (newSession diff sd gd rnd) = 0"
  "playerMistakes (newSession diff sd gd rnd) = 0"
  "\<not> playerFinished (newSession diff sd gd rnd)"
  "aiCellsFilled (newSession diff sd gd rnd) = 0"
  "aiTotalCells (newSession diff sd gd rnd) = int (length (emptyCells (g_puzzle gd) (g_solution gd)))"
  "\<not> aiFinished (newSession diff sd gd rnd)"
  "aiIntervalId (newSession diff sd gd rnd) = None"
  "timeRemaining (newSession diff sd gd rnd) = 600"
  "timerIntervalId (newSession diff sd gd rnd) = None"
  "\<not> started (newSession diff sd gd rnd)"
  "\<not> ended (newSession diff sd gd rnd)"
  "result (newSession diff sd gd rnd) = None"
  "eloDelta (newSession diff sd gd rnd) = 0"
  by (simp_all add: newSession_def Let_def cloneGrid_def BATTLE_TIME_def length_shuffleArray)

lemma startBattle_fields [simp]:
  "battle (startBattle diff sd gd rnd w) = Some (newSession diff sd gd rnd)"
  "timers (startBattle diff sd gd rnd w) = timers w"
  "pdata (startBattle diff sd gd rnd w) = pdata w"
  "events (startBattle diff sd gd rnd w) = events w"
  "nextTimerId (startBattle diff sd gd rnd w) = nextTimerId w"
  by (simp_all add: startBattle_def)

text \<open>
  C9. With draws in \<open>[0, 1)\<close>, whatever the generated pair and the difficulty, the session
  that \<open>startBattle\<close> builds has \<open>aiTotalCells\<close> equal to the number of cells where the
  puzzle holds 0, and its queue lists exactly those cells, each once and each with the
  solution's value at that cell: a permutation of the list that the two loops collect.
\<close>

theorem startBattle_ai_queue:
  assumes "unit_draws rnd"
  shows "\<exists>b. battle (startBattle diff sd gd rnd w) = Some b \<and>
           aiTotalCells b = int (card (empty_positions (g_puzzle gd))) \<and>
           length (aiCellsQueue b) = card (empty_positions (g_puzzle gd)) \<and>
           distinct (aiCellsQueue b) \<and>
           set (aiCellsQueue b) = tagged (g_solution gd) ` empty_positions (g_puzzle gd) \<and>
           mset (aiCellsQueue b) = mset (emptyCells (g_puzzle gd) (g_solution gd))"
proof -
  let ?cells = "emptyCells (g_puzzle gd) (g_solution gd)"
  let ?q = "shuffleArray rnd ?cells"
  have m: "mset ?q = mset ?cells" using assms by (rule shuffleArray_mset)
  have d: "distinct ?q" using m distinct_emptyCells by (metis mset_eq_imp_distinct_iff)
  have s: "set ?q = tagged (g_solution gd) ` empty_positions (g_puzzle gd)"
    using m set_emptyCells by (metis mset_eq_setD)
  have l: "length ?q = card (empty_positions (g_puzzle gd))"
    by (simp add: length_shuffleArray length_emptyCells)
  show ?thesis using m d s l by (simp add: startBattle_def newSession_def Let_def)
qed

lemma unit_draws_rnd0: "unit_draws rnd0"
  by (simp add: unit_draws_def rnd0_def)

lemma length_emptyCells_gen0: "length (emptyCells puzzle0 solution0) = 51"
  by (simp add: emptyCells_def puzzle0_def grid_of_rows_def upt_rec)

theorem startBattle_ai_queue_witness:
  "unit_draws rnd0 \<and>
   map_option aiTotalCells (battle (startBattle ''medium'' 7 gen0 rnd0 init_world)) = Some 51 \<and>
   card (empty_positions puzzle0) = 51"
proof -
  have c: "card (empty_positions puzzle0) = 51"
    using length_emptyCells[of puzzle0 solution0] length_emptyCells_gen0 by simp
  from startBattle_ai_queue[OF unit_draws_rnd0, of "''medium''" 7 gen0 init_world]
  obtain b where "battle (startBattle ''medium'' 7 gen0 rnd0 init_world) = Some b"
    and "aiTotalCells b = int (card (empty_positions (g_puzzle gen0)))" by blast
  then show ?thesis using c unit_draws_rnd0 by (simp add: gen0_def)
qed

subsection \<open>The concrete sessions\<close>

lemma world1_battle: "battle world1 = Some session1"
  by (simp add: world1_def session1_def)

lemma session1_flags: "\<not> ended session1" "\<not> playerFinished session1" "\<not> started session1"
  "timeRemaining session1 = 600" "aiCellsFilled session1 = 0" "playerCellsFilled session1 = 0"
  "original session1 = puzzle0" "solution session1 = solution0" "playerBoard session1 = puzzle0"
  by (simp_all add: world1_def session1_def gen0_def)

lemma total0: "length (emptyCells (g_puzzle gen0) (g_solution gen0)) = 51"
  by (simp add: gen0_def length_emptyCells_gen0)

lemma grid0_cells: "puzzle0 0 2 = 0" "solution0 0 2 = 4" "puzzle0 0 3 = 0" "solution0 0 3 = 6"
  "solution0 4 4 = 5" "puzzle0 0 0 = 5"
  by (simp_all add: puzzle0_def solution0_def grid_of_rows_def)

section \<open>Termination\<close>

lemma emit_simps [simp]:
  "battle (emit s e w) = battle w" "pdata (emit s e w) = pdata w"
  "timers (emit s e w) = timers w" "nextTimerId (emit s e w) = nextTimerId w"
  "events (emit s e w) = events w @ (if s then [e] else [])"
  by (simp_all add: emit_def)

lemma clearTimer_simps [simp]:
  "battle (clearTimer i w) = battle w" "pdata (clearTimer i w) = pdata w"
  "events (clearTimer i w) = events w" "nextTimerId (clearTimer i w) = nextTimerId w"
  by (simp_all add: clearTimer_def split: option.splits)

lemma determine_fields [simp]:
  "ended (determine rsn b) = ended b"
  "playerFinished (determine rsn b) = playerFinished b"
  "playerCellsFilled (determine rsn b) = playerCellsFilled b"
  "aiCellsFilled (determine rsn b) = aiCellsFilled b"
  "aiTotalCells (determine rsn b) = aiTotalCells b"
  "timeRemaining (determine rsn b) = timeRemaining b"
  "playerBoard (determine rsn b) = playerBoard b"
  "playerMistakes (determine rsn b) = playerMistakes b"
  by (simp_all add: determine_def Let_def)

lemma determine_outcome:
  "(result (determine rsn b), eloDelta (determine rsn b)) =
     (if rsn = player_finished \<or> playerFinished b then (Some win, 25)
      else if rsn = ai_finished then (Some lose, - 25)
      else if rsn = timeout then
        (if js_gt (js_div (playerCellsFilled b) (aiTotalCells b))
                  (js_div (aiCellsFilled b) (aiTotalCells b)) then (Some win, 15)
         else if js_gt (js_div (aiCellsFilled b) (aiTotalCells b))
                       (js_div (playerCellsFilled b) (aiTotalCells b)) then (Some lose, - 15)
         else (Some draw, 0))
      else (Some lose, - 25))"
  by (cases rsn) (simp_all add: determine_def Let_def)

lemma js_gt_div: "0 < t \<Longrightarrow> js_gt (js_div p t) (js_div a t) = (a < p)"
  by (simp add: js_div_def divide_less_cancel)

lemma endBattle_ended: "battle w = Some b \<Longrightarrow> ended b \<Longrightarrow> endBattle rsn cb now w = Inr w"
  by (simp add: endBattle_def)

lemma endBattle_live:
  "battle w = Some b \<Longrightarrow> \<not> ended b \<Longrightarrow>
   endBattle rsn cb now w =
     Inr (emit cb OnBattleEnd
       ((clearTimer (aiIntervalId b) (clearTimer (timerIntervalId b) w))
          \<lparr>battle := Some (determine rsn (b\<lparr>ended := True\<rparr>)),
           pdata := updateELO (eloDelta (determine rsn (b\<lparr>ended := True\<rparr>)))
                      (summary (determine rsn (b\<lparr>ended := True\<rparr>))) now (pdata w)\<rparr>))"
  by (simp add: endBattle_def Let_def)

lemma endBattle_outcome:
  assumes "battle w = Some b" and "\<not> ended b"
  shows "\<exists>w' b'. endBattle rsn cb now w = Inr w' \<and> battle w' = Some b' \<and> ended b' \<and>
     (result b', eloDelta b') =
       (if rsn = player_finished \<or> playerFinished b then (Some win, 25)
        else if rsn = ai_finished then (Some lose, - 25)
        else if rsn = timeout then
          (if js_gt (js_div (playerCellsFilled b) (aiTotalCells b))
                    (js_div (aiCellsFilled b) (aiTotalCells b)) then (Some win, 15)
           else if js_gt (js_div (aiCellsFilled b) (aiTotalCells b))
                         (js_div (playerCellsFilled b) (aiTotalCells b)) then (Some lose, - 15)
           else (Some draw, 0))
        else (Some lose, - 25)) \<and>
     (0 < aiTotalCells b \<longrightarrow> rsn = timeout \<longrightarrow> \<not> playerFinished b \<longrightarrow>
        (result b', eloDelta b') =
          (if aiCellsFilled b < playerCellsFilled b then (Some win, 15)
           else if playerCellsFilled b < aiCellsFilled b then (Some lose, - 15)
           else (Some draw, 0)))"
proof -
  let ?b' = "determine rsn (b\<lparr>ended := True\<rparr>)"
  have o: "(result ?b', eloDelta ?b') =
       (if rsn = player_finished \<or> playerFinished b then (Some win, 25)
        else if rsn = ai_finished then (Some lose, - 25)
        else if rsn = timeout then
          (if js_gt (js_div (playerCellsFilled b) (aiTotalCells b))
                    (js_div (aiCellsFilled b) (aiTotalCells b)) then (Some win, 15)
           else if js_gt (js_div (aiCellsFilled b) (aiTotalCells b))
                         (js_div (playerCellsFilled b) (aiTotalCells b)) then (Some lose, - 15)
           else (Some draw, 0))
        else (Some lose, - 25))"
    using determine_outcome[of rsn "b\<lparr>ended := True\<rparr>"] by simp
  have "0 < aiTotalCells b \<longrightarrow> rsn = timeout \<longrightarrow> \<not> playerFinished b \<longrightarrow>
        (result ?b', eloDelta ?b') =
          (if aiCellsFilled b < playerCellsFilled b then (Some win, 15)
           else if playerCellsFilled b < aiCellsFilled b then (Some lose, - 15)
           else (Some draw, 0))"
    unfolding o by (simp add: js_gt_div)
  with o show ?thesis
    using assms by (simp add: endBattle_live)
qed

text \<open>
  C4. When a live session terminates, result and rating delta follow the ordered cases:
  reason \<open>player_finished\<close>, or \<open>playerFinished\<close> already set whatever the reason, gives
  win and +25; else \<open>ai_finished\<close> gives lose and -25; else \<open>timeout\<close> compares the two
  quotients \<open>playerCellsFilled / aiTotalCells\<close> and \<open>aiCellsFilled / aiTotalCells\<close>
  (greater: win, +15; less: lose, -15; otherwise draw, 0), which for a positive
  \<open>aiTotalCells\<close> is the comparison of the two counts; else \<open>quit\<close> gives lose and -25.
\<close>

theorem endBattle_result_by_reason:
  assumes "battle w = Some b" and "\<not> ended b"
  shows "\<exists>w' b'. endBattle rsn cb now w = Inr w' \<and> battle w' = Some b' \<and> ended b' \<and>
     (result b', eloDelta b') =
       (if rsn = player_finished \<or> playerFinished b then (Some win, 25)
        else if rsn = ai_finished then (Some lose, - 25)
        else if rsn = timeout then
          (if js_gt (js_div (playerCellsFilled b) (aiTotalCells b))
                    (js_div (aiCellsFilled b) (aiTotalCells b)) then (Some win, 15)
           else if js_gt (js_div (aiCellsFilled b) (aiTotalCells b))
                         (js_div (playerCellsFilled b) (aiTotalCells b)) then (Some lose, - 15)
           else (Some draw, 0))
        else (Some lose, - 25)) \<and>
     (0 < aiTotalCells b \<longrightarrow> rsn = timeout \<longrightarrow> \<not> playerFinished b \<longrightarrow>
        (result b', eloDelta b') =
          (if aiCellsFilled b < playerCellsFilled b then (Some win, 15)
           else if playerCellsFilled b < aiCellsFilled b then (Some lose, - 15)
           else (Some draw, 0)))"
  using assms by (rule endBattle_outcome)

theorem endBattle_result_by_reason_witness:
  "battle world40 = Some (session1\<lparr>playerCellsFilled := 40, aiCellsFilled := 30, aiTotalCells := 50\<rparr>) \<and>
   \<not> ended (session1\<lparr>playerCellsFilled := 40, aiCellsFilled := 30, aiTotalCells := 50\<rparr>) \<and>
   map_option result (session_of (endBattle timeout True ''t'' world40)) = Some (Some win) \<and>
   map_option eloDelta (session_of (endBattle timeout True ''t'' world40)) = Some 15 \<and>
   map_option result (session_of (endBattle quit True ''t'' world40)) = Some (Some lose) \<and>
   map_option eloDelta (session_of (endBattle quit True ''t'' world40)) = Some (- 25)"
proof -
  let ?b = "session1\<lparr>playerCellsFilled := 40, aiCellsFilled := 30, aiTotalCells := 50\<rparr>"
  have b: "battle world40 = Some ?b" by (simp add: world40_def)
  have l: "\<not> ended ?b" by (simp add: session1_flags)
  have pf: "\<not> playerFinished ?b" by (simp add: session1_flags)
  from endBattle_result_by_reason[OF b l, of timeout True "''t''"] pf
  obtain w' b' where 1: "endBattle timeout True ''t'' world40 = Inr w'" "battle w' = Some b'"
     "(result b', eloDelta b') = (Some win, 15)" by auto
  from endBattle_result_by_reason[OF b l, of quit True "''t''"] pf
  obtain w2 b2 where 2: "endBattle quit True ''t'' world40 = Inr w2" "battle w2 = Some b2"
     "(result b2, eloDelta b2) = (Some lose, - 25)" by auto
  from b l 1 2 show ?thesis by (simp add: session_of_def)
qed

subsection \<open>A session ends at most once\<close>

lemma pvpGames_updateELO: "pvpGames (updateELO delta md now d) = pvpGames d + 1"
  by (simp add: updateELO_def Let_def pvpGames_def js_or_def)

lemma quiet_refl: "quiet w w" by (simp add: quiet_def)

lemma quiet_trans: "quiet w w1 \<Longrightarrow> quiet w1 w2 \<Longrightarrow> quiet w w2" by (simp add: quiet_def)
lemma quiet_closing: "quiet w w1 \<Longrightarrow> closing w1 w2 \<Longrightarrow> closing w w2" by (simp add: quiet_def closing_def)
lemma closing_quiet: "closing w w1 \<Longrightarrow> quiet w1 w2 \<Longrightarrow> closing w w2" by (simp add: quiet_def closing_def)

lemma ends_append [simp]: "ends (xs @ ys) = ends xs + ends ys" by (simp add: ends_def)
lemma ends_single [simp]: "ends [OnBattleEnd] = 1" "ends [OnTimerTick n] = 0" "ends [OnAIProgress a t] = 0" "ends [] = 0"
  by (simp_all add: ends_def)

lemma endBattle_step:
  assumes "battle w = Some b" "endBattle rsn cb now w = Inr w'"
  shows "(ended b \<and> w' = w) \<or> (\<not> ended b \<and> closing w w')"
proof (cases "ended b")
  case True
  then show ?thesis using assms by (simp add: endBattle_ended)
next
  case False
  then show ?thesis using assms
    by (auto simp: endBattle_live closing_def pvpGames_updateELO)
qed

lemma scheduleNextAICell_quiet:
  "scheduleNextAICell p e w = Inr w' \<Longrightarrow> quiet w w'"
  by (auto simp: scheduleNextAICell_def setTimeout_def quiet_def Let_def split: option.splits if_splits)

lemma timerCallback_step:
  assumes "timerCallback t e now w = Inr w'"
  shows "quiet w w' \<or> closing w w'"
proof -
  from assms obtain b where b: "battle w = Some b"
    by (auto simp: timerCallback_def split: option.splits)
  show ?thesis
  proof (cases "ended b")
    case True
    then show ?thesis using assms b by (simp add: timerCallback_def quiet_refl)
  next
    case False
    let ?b1 = "b\<lparr>timeRemaining := timeRemaining b - 1\<rparr>"
    let ?w1 = "emit t (OnTimerTick (timeRemaining ?b1)) (w\<lparr>battle := Some ?b1\<rparr>)"
    have q: "quiet w ?w1" using b by (simp add: quiet_def)
    have b1: "battle ?w1 = Some ?b1" by simp
    show ?thesis
    proof (cases "timeRemaining ?b1 \<le> 0")
      case True
      then have "endBattle timeout e now ?w1 = Inr w'"
        using assms b False by (simp add: timerCallback_def Let_def)
      from endBattle_step[OF b1 this] False have "closing ?w1 w'" by simp
      with q show ?thesis by (blast intro: quiet_closing)
    next
      case F: False
      then have "w' = ?w1" using assms b False by (simp add: timerCallback_def Let_def)
      with q show ?thesis by simp
    qed
  qed
qed

lemma aiCallback_step:
  assumes "aiCallback p e now w = Inr w'"
  shows "quiet w w' \<or> closing w w'"
proof -
  from assms obtain b where b: "battle w = Some b"
    by (auto simp: aiCallback_def split: option.splits)
  show ?thesis
  proof (cases "ended b")
    case True
    then show ?thesis using assms b by (simp add: aiCallback_def quiet_refl)
  next
    case False
    let ?b1 = "b\<lparr>aiCellsFilled := aiCellsFilled b + 1\<rparr>"
    let ?w1 = "emit p (OnAIProgress (aiCellsFilled ?b1) (aiTotalCells ?b1)) (w\<lparr>battle := Some ?b1\<rparr>)"
    let ?b2 = "?b1\<lparr>aiFinished := True\<rparr>"
    let ?w2 = "?w1\<lparr>battle := Some ?b2\<rparr>"
    have q1: "quiet w ?w1" using b by (simp add: quiet_def)
    have q2: "quiet w ?w2" using b by (simp add: quiet_def)
    have b2: "battle ?w2 = Some ?b2" by simp
    consider (fin_end) "aiTotalCells ?b1 \<le> aiCellsFilled ?b1" "\<not> playerFinished ?b2"
      | (fin_noend) "aiTotalCells ?b1 \<le> aiCellsFilled ?b1" "playerFinished ?b2"
      | (more) "\<not> aiTotalCells ?b1 \<le> aiCellsFilled ?b1" by blast
    then show ?thesis
    proof cases
      case fin_end
      then have "endBattle ai_finished e now ?w2 = Inr w'"
        using assms b False by (simp add: aiCallback_def Let_def)
      from endBattle_step[OF b2 this] False have "closing ?w2 w'" by simp
      with q2 show ?thesis by (blast intro: quiet_closing)
    next
      case fin_noend
      then have "w' = ?w2" using assms b False by (simp add: aiCallback_def Let_def)
      with q2 show ?thesis by simp
    next
      case more
      then have "scheduleNextAICell p e ?w1 = Inr w'"
        using assms b False by (simp add: aiCallback_def Let_def)
      then have "quiet ?w1 w'" by (rule scheduleNextAICell_quiet)
      with q1 show ?thesis by (blast intro: quiet_trans)
    qed
  qed
qed

lemma fire_step:
  assumes "fire i now w = Inr w'"
  shows "quiet w w' \<or> closing w w'"
proof (cases "find (\<lambda>t. tid t = i) (timers w)")
  case None
  then show ?thesis using assms by (simp add: fire_def quiet_refl)
next
  case (Some t)
  let ?w1 = "if repeating t then w else w\<lparr>timers := filter (\<lambda>u. tid u \<noteq> i) (timers w)\<rparr>"
  have q: "quiet w ?w1" by (simp add: quiet_def)
  have "(case handler t of TimerTick a b \<Rightarrow> timerCallback a b now ?w1
          | AIStep a b \<Rightarrow> aiCallback a b now ?w1) = Inr w'"
    using assms Some by (simp add: fire_def Let_def)
  then have "quiet ?w1 w' \<or> closing ?w1 w'"
    by (cases "handler t") (auto dest: timerCallback_step aiCallback_step)
  with q show ?thesis by (blast intro: quiet_trans quiet_closing)
qed

lemma beginBattle_quiet: "beginBattle p t e w = Inr w' \<Longrightarrow> quiet w w'"
proof -
  assume a: "beginBattle p t e w = Inr w'"
  show ?thesis
  proof (cases "battle w")
    case None
    then show ?thesis using a by (simp add: beginBattle_def quiet_refl)
  next
    case (Some b)
    show ?thesis
    proof (cases "started b")
      case True
      then show ?thesis using a Some by (simp add: beginBattle_def quiet_refl)
    next
      case False
      let ?w2 = "(snd (setInterval (TimerTick t e) w))\<lparr>battle := Some (b\<lparr>started := True, timerIntervalId := Some (nextTimerId w)\<rparr>)\<rparr>"
      have "scheduleNextAICell p e ?w2 = Inr w'"
        using a Some False by (simp add: beginBattle_def setInterval_def Let_def)
      then have "quiet ?w2 w'" by (rule scheduleNextAICell_quiet)
      moreover have "quiet w ?w2" using Some by (simp add: quiet_def setInterval_def)
      ultimately show ?thesis by (blast intro: quiet_trans)
    qed
  qed
qed

lemma playerPlace_quiet: "playerPlace r c v w = Inr (res, w') \<Longrightarrow> quiet w w'"
  by (auto simp: playerPlace_def quiet_def Let_def split: option.splits if_splits sum.splits)

lemma playerErase_quiet: "playerErase r c w = Inr w' \<Longrightarrow> quiet w w'"
  by (auto simp: playerErase_def quiet_def Let_def split: option.splits if_splits sum.splits)

lemma playerFinish_step:
  assumes "playerFinish cb now w = Inr w'"
  shows "quiet w w' \<or> closing w w'"
proof (cases "battle w")
  case None
  then show ?thesis using assms by (simp add: playerFinish_def quiet_refl)
next
  case (Some b)
  show ?thesis
  proof (cases "ended b")
    case True
    then show ?thesis using assms Some by (simp add: playerFinish_def quiet_refl)
  next
    case False
    let ?w1 = "w\<lparr>battle := Some (b\<lparr>playerFinished := True\<rparr>)\<rparr>"
    have b1: "battle ?w1 = Some (b\<lparr>playerFinished := True\<rparr>)" by simp
    have "endBattle player_finished cb now ?w1 = Inr w'"
      using assms Some False by (simp add: playerFinish_def)
    from endBattle_step[OF b1 this] False have "closing ?w1 w'" by simp
    moreover have "quiet w ?w1" using Some by (simp add: quiet_def)
    ultimately show ?thesis by (blast intro: quiet_closing)
  qed
qed

lemma quitBattle_step:
  assumes "quitBattle cb now w = Inr w'"
  shows "quiet w w' \<or> closing w w'"
proof (cases "battle w")
  case None
  then show ?thesis using assms by (simp add: quitBattle_def quiet_refl)
next
  case (Some b)
  show ?thesis
  proof (cases "ended b")
    case True
    then show ?thesis using assms Some by (simp add: quitBattle_def quiet_refl)
  next
    case False
    then have "endBattle quit cb now w = Inr w'"
      using assms Some by (simp add: quitBattle_def)
    from endBattle_step[OF Some this] False show ?thesis by simp
  qed
qed

lemma step_cases:
  assumes "\<not> is_start x" "step x w = Inr w'"
  shows "quiet w w' \<or> closing w w'"
proof (cases x)
  case (StartBattle a b c d)
  then show ?thesis using assms by (simp add: is_start_def)
next
  case (BeginBattle p t e)
  then show ?thesis using assms by (auto dest: beginBattle_quiet)
next
  case (PlayerPlace r c v)
  then obtain res where "playerPlace r c v w = Inr (res, w')"
    using assms by (cases "playerPlace r c v w") auto
  then show ?thesis by (auto dest: playerPlace_quiet)
next
  case (PlayerErase r c)
  then show ?thesis using assms by (auto dest: playerErase_quiet)
next
  case (PlayerFinish cb now)
  then show ?thesis using assms by (auto dest: playerFinish_step)
next
  case (QuitBattle cb now)
  then show ?thesis using assms by (auto dest: quitBattle_step)
next
  case (Fire i now)
  then show ?thesis using assms by (auto dest: fire_step)
qed

lemma run_cases:
  "list_all (\<lambda>x. \<not> is_start x) xs \<Longrightarrow> run xs w = Inr w' \<Longrightarrow> quiet w w' \<or> closing w w'"
proof (induction xs arbitrary: w)
  case Nil
  then show ?case by (simp add: quiet_refl)
next
  case (Cons x xs)
  from Cons.prems obtain w1 where s: "step x w = Inr w1" and r: "run xs w1 = Inr w'"
    by (auto split: sum.splits)
  from Cons.prems s have 1: "quiet w w1 \<or> closing w w1" by (auto dest: step_cases)
  from Cons.IH[OF _ r] Cons.prems have 2: "quiet w1 w' \<or> closing w1 w'" by simp
  have "\<not> (closing w w1 \<and> closing w1 w')" by (auto simp: closing_def)
  with 1 2 show ?case by (blast intro: quiet_trans quiet_closing closing_quiet)
qed

lemma timerCallback_ended: "battle w = Some b \<Longrightarrow> ended b \<Longrightarrow> timerCallback f e now w = Inr w"
  by (simp add: timerCallback_def)

lemma aiCallback_ended: "battle w = Some b \<Longrightarrow> ended b \<Longrightarrow> aiCallback p e now w = Inr w"
  by (simp add: aiCallback_def)

lemma playerFinish_ended: "battle w = Some b \<Longrightarrow> ended b \<Longrightarrow> playerFinish cb now w = Inr w"
  by (simp add: playerFinish_def)

lemma quitBattle_ended: "battle w = Some b \<Longrightarrow> ended b \<Longrightarrow> quitBattle cb now w = Inr w"
  by (simp add: quitBattle_def)

lemma trigger_on_ended:
  assumes "battle w = Some b" "ended b"
  shows "\<exists>w1 b1. endBattle r1 cb1 t1 w = Inr w1 \<and> battle w1 = Some b1 \<and> ended b1 \<and>
            endBattle r2 cb2 t2 w1 = Inr w1 \<and>
            playerFinish cb2 t2 w1 = Inr w1 \<and> quitBattle cb2 t2 w1 = Inr w1 \<and>
            timerCallback f cb2 t2 w1 = Inr w1 \<and> aiCallback p cb2 t2 w1 = Inr w1 \<and>
            (if ended b then w1 = w
             else pdata w1 = updateELO (eloDelta b1) (summary b1) t1 (pdata w) \<and>
                  events w1 = events w @ (if cb1 then [OnBattleEnd] else []))"
proof -
  have 0: "endBattle r1 cb1 t1 w = Inr w" using assms by (rule endBattle_ended)
  have 1: "endBattle r2 cb2 t2 w = Inr w" using assms by (rule endBattle_ended)
  have 2: "playerFinish cb2 t2 w = Inr w" using assms by (rule playerFinish_ended)
  have 3: "quitBattle cb2 t2 w = Inr w" using assms by (rule quitBattle_ended)
  have 4: "timerCallback f cb2 t2 w = Inr w" using assms by (rule timerCallback_ended)
  have 5: "aiCallback p cb2 t2 w = Inr w" using assms by (rule aiCallback_ended)
  have 6: "if ended b then w = w
        else pdata w = updateELO (eloDelta b) (summary b) t1 (pdata w) \<and>
             events w = events w @ (if cb1 then [OnBattleEnd] else [])"
    using assms(2) by (simp only: if_True)
  from 0 assms 1 2 3 4 5 6 show ?thesis by blast
qed

lemma trigger_on_live:
  assumes "battle w = Some b" "\<not> ended b"
  shows "\<exists>w1 b1. endBattle r1 cb1 t1 w = Inr w1 \<and> battle w1 = Some b1 \<and> ended b1 \<and>
            endBattle r2 cb2 t2 w1 = Inr w1 \<and>
            playerFinish cb2 t2 w1 = Inr w1 \<and> quitBattle cb2 t2 w1 = Inr w1 \<and>
            timerCallback f cb2 t2 w1 = Inr w1 \<and> aiCallback p cb2 t2 w1 = Inr w1 \<and>
            (if ended b then w1 = w
             else pdata w1 = updateELO (eloDelta b1) (summary b1) t1 (pdata w) \<and>
                  events w1 = events w @ (if cb1 then [OnBattleEnd] else []))"
proof -
  define b1 where "b1 = determine r1 (b\<lparr>ended := True\<rparr>)"
  define w1 where "w1 = emit cb1 OnBattleEnd
       ((clearTimer (aiIntervalId b) (clearTimer (timerIntervalId b) w))
          \<lparr>battle := Some b1,
           pdata := updateELO (eloDelta b1) (summary b1) t1 (pdata w)\<rparr>)"
  have e: "endBattle r1 cb1 t1 w = Inr w1"
    unfolding w1_def b1_def using assms by (rule endBattle_live)
  have b: "battle w1 = Some b1" by (simp add: w1_def)
  have en: "ended b1" by (simp add: b1_def)
  have 1: "endBattle r2 cb2 t2 w1 = Inr w1" using b en by (rule endBattle_ended)
  have 2: "playerFinish cb2 t2 w1 = Inr w1" using b en by (rule playerFinish_ended)
  have 3: "quitBattle cb2 t2 w1 = Inr w1" using b en by (rule quitBattle_ended)
  have 4: "timerCallback f cb2 t2 w1 = Inr w1" using b en by (rule timerCallback_ended)
  have 5: "aiCallback p cb2 t2 w1 = Inr w1" using b en by (rule aiCallback_ended)
  have "pdata w1 = updateELO (eloDelta b1) (summary b1) t1 (pdata w)" by (simp add: w1_def)
  moreover have "events w1 = events w @ (if cb1 then [OnBattleEnd] else [])" by (simp add: w1_def)
  ultimately have 6: "if ended b then w1 = w
        else pdata w1 = updateELO (eloDelta b1) (summary b1) t1 (pdata w) \<and>
             events w1 = events w @ (if cb1 then [OnBattleEnd] else [])"
    using assms(2) by (simp only: if_False simp_thms)
  from e b en 1 2 3 4 5 6 show ?thesis by blast
qed

lemma run_counts:
  assumes "battle w = Some b" "\<not> ended b" "list_all (\<lambda>x. \<not> is_start x) xs" "run xs w = Inr w'"
  shows "\<exists>b'. battle w' = Some b' \<and>
               pvpGames (pdata w') = pvpGames (pdata w) + (if ended b' then 1 else 0) \<and>
               ends (events w') \<le> ends (events w) + (if ended b' then 1 else 0)"
proof -
  from run_cases[OF assms(3,4)] have "quiet w w' \<or> closing w w'" .
  then show ?thesis
  proof
    assume q: "quiet w w'"
    then obtain b' where b': "battle w' = Some b'" "ended b' = ended b"
      using assms(1) by (auto simp: quiet_def)
    with q assms(2) show ?thesis by (simp add: quiet_def)
  next
    assume c: "closing w w'"
    then obtain b' where b': "battle w' = Some b'" "ended b'"
      by (auto simp: closing_def)
    with c show ?thesis by (simp add: closing_def)
  qed
qed

lemma quitBattle_live:
  assumes "battle w = Some b" "\<not> ended b"
  shows "\<exists>w' b'. quitBattle cb now w = Inr w' \<and> battle w' = Some b' \<and> ended b' \<and>
     (result b', eloDelta b') = (if playerFinished b then (Some win, 25) else (Some lose, - 25))"
proof -
  have q: "quitBattle cb now w = endBattle quit cb now w" using assms by (simp add: quitBattle_def)
  from endBattle_outcome[OF assms, of quit cb now]
  show ?thesis unfolding q by auto
qed

text \<open>
  C2. Termination is idempotent. The first trigger on a session ends it, calls
  \<open>updateELO\<close> once and the completion callback at most once; any further trigger
  (\<open>endBattle\<close> with any reason, \<open>playerFinish\<close>, \<open>quitBattle\<close>, a countdown tick or an
  AI step) returns the state unchanged, so result, delta and \<open>ended\<close> keep their values.
  Along every run of engine calls on a live session without a new \<open>startBattle\<close>, the
  number of rating updates grows by one exactly if the session has ended, and the number
  of completion callbacks by at most that.
\<close>

theorem termination_idempotent:
  assumes "battle w = Some b"
  shows "(\<exists>w1 b1. endBattle r1 cb1 t1 w = Inr w1 \<and> battle w1 = Some b1 \<and> ended b1 \<and>
            endBattle r2 cb2 t2 w1 = Inr w1 \<and>
            playerFinish cb2 t2 w1 = Inr w1 \<and> quitBattle cb2 t2 w1 = Inr w1 \<and>
            timerCallback f cb2 t2 w1 = Inr w1 \<and> aiCallback p cb2 t2 w1 = Inr w1 \<and>
            (if ended b then w1 = w
             else pdata w1 = updateELO (eloDelta b1) (summary b1) t1 (pdata w) \<and>
                  events w1 = events w @ (if cb1 then [OnBattleEnd] else []))) \<and>
         (\<not> ended b \<longrightarrow> list_all (\<lambda>x. \<not> is_start x) xs \<longrightarrow> run xs w = Inr w' \<longrightarrow>
            (\<exists>b'. battle w' = Some b' \<and>
               pvpGames (pdata w') = pvpGames (pdata w) + (if ended b' then 1 else 0) \<and>
               ends (events w') \<le> ends (events w) + (if ended b' then 1 else 0)))"
proof (rule conjI)
  show "\<exists>w1 b1. endBattle r1 cb1 t1 w = Inr w1 \<and> battle w1 = Some b1 \<and> ended b1 \<and>
            endBattle r2 cb2 t2 w1 = Inr w1 \<and>
            playerFinish cb2 t2 w1 = Inr w1 \<and> quitBattle cb2 t2 w1 = Inr w1 \<and>
            timerCallback f cb2 t2 w1 = Inr w1 \<and> aiCallback p cb2 t2 w1 = Inr w1 \<and>
            (if ended b then w1 = w
             else pdata w1 = updateELO (eloDelta b1) (summary b1) t1 (pdata w) \<and>
                  events w1 = events w @ (if cb1 then [OnBattleEnd] else []))"
  proof (cases "ended b")
    case True
    with assms show ?thesis by (rule trigger_on_ended)
  next
    case False
    with assms show ?thesis by (rule trigger_on_live)
  qed
next
  show "\<not> ended b \<longrightarrow> list_all (\<lambda>x. \<not> is_start x) xs \<longrightarrow> run xs w = Inr w' \<longrightarrow>
            (\<exists>b'. battle w' = Some b' \<and>
               pvpGames (pdata w') = pvpGames (pdata w) + (if ended b' then 1 else 0) \<and>
               ends (events w') \<le> ends (events w) + (if ended b' then 1 else 0))"
    using assms by (intro impI) (rule run_counts)
qed

theorem termination_idempotent_witness:
  "battle world1 = Some session1 \<and> \<not> ended session1 \<and>
   list_all (\<lambda>x. \<not> is_start x)
     [QuitBattle True ''t1'', QuitBattle True ''t2'', PlayerFinish True ''t3''] \<and>
   (\<exists>w1. endBattle timeout True ''t1'' world1 = Inr w1 \<and> endBattle quit True ''t2'' w1 = Inr w1 \<and>
      map_option ended (battle w1) = Some True) \<and>
   (\<exists>w'. run [QuitBattle True ''t1'', QuitBattle True ''t2'', PlayerFinish True ''t3''] world1 = Inr w' \<and>
      pvpGames (pdata world1) = 0 \<and> pvpGames (pdata w') = 1 \<and> ends (events w') \<le> 1)"
proof -
  let ?xs = "[QuitBattle True ''t1'', QuitBattle True ''t2'', PlayerFinish True ''t3'']"
  have ns: "list_all (\<lambda>x. \<not> is_start x) ?xs" by (simp add: is_start_def)
  from quitBattle_live[OF world1_battle session1_flags(1), of True "''t1''"]
  obtain w1 b1 where q: "quitBattle True ''t1'' world1 = Inr w1" "battle w1 = Some b1" "ended b1"
    by blast
  have r: "run ?xs world1 = Inr w1"
    using q quitBattle_ended[OF q(2,3), of True "''t2''"] playerFinish_ended[OF q(2,3), of True "''t3''"]
    by simp
  have z: "pvpGames (pdata world1) = 0" "ends (events world1) = 0"
    by (simp_all add: world1_def init_world_def createDefaultData_def pvpGames_def)
  from termination_idempotent[OF world1_battle, of timeout True "''t1''" quit True "''t2''" True True ?xs w1]
    session1_flags(1) ns r q(2,3) z
  have "(\<exists>w1. endBattle timeout True ''t1'' world1 = Inr w1 \<and> endBattle quit True ''t2'' w1 = Inr w1 \<and>
      map_option ended (battle w1) = Some True) \<and>
      pvpGames (pdata w1) = 1 \<and> ends (events w1) \<le> 1"
    by auto
  with world1_battle session1_flags(1) ns r z show ?thesis by blast
qed

section \<open>Scheduled callbacks\<close>

lemma beginBattle_fresh:
  assumes "battle w = Some b" "\<not> started b" "\<not> ended b" "\<not> aiFinished b"
  shows "beginBattle p t e w =
     Inr (w\<lparr>timers := timers w @
              [\<lparr>tid = nextTimerId w, repeating = True, handler = TimerTick t e\<rparr>,
               \<lparr>tid = Suc (nextTimerId w), repeating = False, handler = AIStep p e\<rparr>],
            nextTimerId := Suc (Suc (nextTimerId w)),
            battle := Some (b\<lparr>started := True, timerIntervalId := Some (nextTimerId w),
                             aiIntervalId := Some (Suc (nextTimerId w))\<rparr>)\<rparr>)"
  using assms
  by (simp add: beginBattle_def setInterval_def scheduleNextAICell_def setTimeout_def Let_def)

lemma endBattle_live_session:
  assumes "battle w = Some b" "\<not> ended b"
  shows "\<exists>w'. endBattle rsn cb now w = Inr w' \<and> battle w' = Some (determine rsn (b\<lparr>ended := True\<rparr>))"
  using assms by (simp add: endBattle_live)

lemma timerCallback_live:
  assumes "battle w = Some b" "\<not> ended b"
  shows "\<exists>w' b'. timerCallback f e now w = Inr w' \<and> battle w' = Some b' \<and>
           timeRemaining b' = timeRemaining b - 1"
proof -
  define b1 where "b1 = b\<lparr>timeRemaining := timeRemaining b - 1\<rparr>"
  define w1 where "w1 = emit f (OnTimerTick (timeRemaining b1)) (w\<lparr>battle := Some b1\<rparr>)"
  have b1: "battle w1 = Some b1" "\<not> ended b1" using assms by (simp_all add: w1_def b1_def)
  have t: "timeRemaining b1 = timeRemaining b - 1" by (simp add: b1_def)
  have u: "timerCallback f e now w =
     (if timeRemaining b1 \<le> 0 then endBattle timeout e now w1 else Inr w1)"
    using assms by (simp add: timerCallback_def Let_def w1_def b1_def)
  show ?thesis
  proof (cases "timeRemaining b1 \<le> 0")
    case True
    from endBattle_live_session[OF b1, of timeout e now] obtain w' where
      "endBattle timeout e now w1 = Inr w'" "battle w' = Some (determine timeout (b1\<lparr>ended := True\<rparr>))"
      by blast
    with u True t show ?thesis by simp
  next
    case False
    with u b1 t show ?thesis by simp
  qed
qed

lemma scheduleNextAICell_session:
  assumes "battle w = Some b"
  shows "\<exists>w' b'. scheduleNextAICell p e w = Inr w' \<and> battle w' = Some b' \<and>
            aiCellsFilled b' = aiCellsFilled b"
  using assms by (simp add: scheduleNextAICell_def setTimeout_def Let_def)

lemma aiCallback_live:
  assumes "battle w = Some b" "\<not> ended b"
  shows "\<exists>w' b'. aiCallback p e now w = Inr w' \<and> battle w' = Some b' \<and>
           aiCellsFilled b' = aiCellsFilled b + 1"
proof -
  define b1 where "b1 = b\<lparr>aiCellsFilled := aiCellsFilled b + 1\<rparr>"
  define w1 where "w1 = emit p (OnAIProgress (aiCellsFilled b1) (aiTotalCells b1)) (w\<lparr>battle := Some b1\<rparr>)"
  define b2 where "b2 = b1\<lparr>aiFinished := True\<rparr>"
  define w2 where "w2 = w1\<lparr>battle := Some b2\<rparr>"
  have b1: "battle w1 = Some b1" by (simp add: w1_def)
  have b2: "battle w2 = Some b2" "\<not> ended b2" using assms by (simp_all add: w2_def b2_def b1_def)
  have a1: "aiCellsFilled b1 = aiCellsFilled b + 1" by (simp add: b1_def)
  have a2: "aiCellsFilled b2 = aiCellsFilled b + 1" by (simp add: b2_def b1_def)
  have u: "aiCallback p e now w =
     (if aiTotalCells b1 \<le> aiCellsFilled b1 then
        (if \<not> playerFinished b2 then endBattle ai_finished e now w2 else Inr w2)
      else scheduleNextAICell p e w1)"
    using assms by (simp add: aiCallback_def Let_def w2_def b2_def w1_def b1_def)
  consider (fin_end) "aiTotalCells b1 \<le> aiCellsFilled b1" "\<not> playerFinished b2"
    | (fin_noend) "aiTotalCells b1 \<le> aiCellsFilled b1" "playerFinished b2"
    | (more) "\<not> aiTotalCells b1 \<le> aiCellsFilled b1" by blast
  then show ?thesis
  proof cases
    case fin_end
    from endBattle_live_session[OF b2, of ai_finished e now] obtain w' where
      "endBattle ai_finished e now w2 = Inr w'" "battle w' = Some (determine ai_finished (b2\<lparr>ended := True\<rparr>))"
      by blast
    with u fin_end a2 show ?thesis by simp
  next
    case fin_noend
    with u b2 a2 show ?thesis by simp
  next
    case more
    from scheduleNextAICell_session[OF b1, of p e] obtain w' b' where
      "scheduleNextAICell p e w1 = Inr w'" "battle w' = Some b'" "aiCellsFilled b' = aiCellsFilled b1"
      by blast
    with u more a1 show ?thesis by simp
  qed
qed

lemma fire_ended:
  assumes "battle w = Some b" "ended b"
  shows "\<exists>w'. fire i now w = Inr w' \<and> battle w' = battle w \<and> pdata w' = pdata w \<and>
           events w' = events w"
proof (cases "find (\<lambda>t. tid t = i) (timers w)")
  case None
  then show ?thesis by (simp add: fire_def)
next
  case (Some t)
  define w1 where "w1 = (if repeating t then w else w\<lparr>timers := filter (\<lambda>u. tid u \<noteq> i) (timers w)\<rparr>)"
  have b1: "battle w1 = Some b" using assms by (simp add: w1_def)
  have same: "battle w1 = battle w" "pdata w1 = pdata w" "events w1 = events w"
    by (simp_all add: w1_def)
  have u: "fire i now w = (case handler t of
                TimerTick f e \<Rightarrow> timerCallback f e now w1
              | AIStep p e \<Rightarrow> aiCallback p e now w1)"
    unfolding w1_def using Some by (cases "repeating t") (simp_all add: fire_def Let_def)
  show ?thesis
  proof (cases "handler t")
    case (TimerTick f e)
    with u timerCallback_ended[OF b1 assms(2), of f e now] same show ?thesis by simp
  next
    case (AIStep p e)
    with u aiCallback_ended[OF b1 assms(2), of p e now] same show ?thesis by simp
  qed
qed

lemma run_snoc: "run (xs @ [x]) w = (case run xs w of Inl e \<Rightarrow> Inl e | Inr w1 \<Rightarrow> step x w1)"
  by (induction xs arbitrary: w) (auto split: sum.splits)

lemma run_superseded:
  "run [StartBattle ''medium'' 7 gen0 rnd0, BeginBattle True True True,
        StartBattle ''medium'' 8 gen0 rnd0, BeginBattle True True True] init_world
   = Inr world_superseded"
proof -
  define a1 where "a1 = newSession ''medium'' 7 gen0 rnd0"
  define a2 where "a2 = newSession ''medium'' 8 gen0 rnd0"
  define w1 where "w1 = init_world\<lparr>battle := Some a1\<rparr>"
  define w2 where "w2 = init_world\<lparr>timers :=
              [\<lparr>tid = 0, repeating = True, handler = TimerTick True True\<rparr>,
               \<lparr>tid = 1, repeating = False, handler = AIStep True True\<rparr>],
            nextTimerId := 2,
            battle := Some (a1\<lparr>started := True, timerIntervalId := Some 0,
                             aiIntervalId := Some 1\<rparr>)\<rparr>"
  define w3 where "w3 = w2\<lparr>battle := Some a2\<rparr>"
  have fresh: "\<not> started a1" "\<not> ended a1" "\<not> aiFinished a1"
    "\<not> started a2" "\<not> ended a2" "\<not> aiFinished a2"
    by (simp_all add: a1_def a2_def)
  have s1: "step (StartBattle ''medium'' 7 gen0 rnd0) init_world = Inr w1"
    by (simp add: startBattle_def w1_def a1_def)
  have b1: "battle w1 = Some a1" by (simp add: w1_def)
  have s2: "step (BeginBattle True True True) w1 = Inr w2"
    using beginBattle_fresh[OF b1 fresh(1-3), of True True True]
    by (simp add: w1_def w2_def init_world_def)
  have s3: "step (StartBattle ''medium'' 8 gen0 rnd0) w2 = Inr w3"
    by (simp add: startBattle_def w3_def a2_def)
  have b3: "battle w3 = Some a2" by (simp add: w3_def)
  have s4: "step (BeginBattle True True True) w3 = Inr world_superseded"
    using beginBattle_fresh[OF b3 fresh(4-6), of True True True]
    by (simp add: w3_def w2_def world_superseded_def init_world_def a2_def)
  show ?thesis by (simp only: run.simps s1 s2 s3 s4 sum.case)
qed

lemma fire_stale_tick:
  "map_option timeRemaining (session_of (fire 0 ''t'' world_superseded)) = Some 599"
  by (simp add: fire_def world_superseded_def timerCallback_def Let_def session_of_def emit_def)

lemma fire_stale_ai:
  "map_option aiCellsFilled (session_of (fire 1 ''t'' world_superseded)) = Some 1"
  by (simp add: fire_def world_superseded_def aiCallback_def Let_def session_of_def emit_def
      total0 scheduleNextAICell_def setTimeout_def)

text \<open>
  C1 fails on the code. A session is started and begun (timer 0 is its countdown, timer 1
  its AI step); a second session is started, which supersedes it without cancelling
  either timer, and begun (timers 2 and 3). Timer 0, armed for the first session, then
  fires and the current session's \<open>timeRemaining\<close> goes from 600 to 599; timer 1 fires
  and the current session's \<open>aiCellsFilled\<close> goes from 0 to 1.
\<close>

theorem stale_callback_mutates_new_session:
  "map_option seed (session_of (run
      [StartBattle ''medium'' 7 gen0 rnd0, BeginBattle True True True,
       StartBattle ''medium'' 8 gen0 rnd0, BeginBattle True True True] init_world)) = Some 8 \<and>
   map_option timerIntervalId (session_of (run
      [StartBattle ''medium'' 7 gen0 rnd0, BeginBattle True True True,
       StartBattle ''medium'' 8 gen0 rnd0, BeginBattle True True True] init_world)) = Some (Some 2) \<and>
   map_option aiIntervalId (session_of (run
      [StartBattle ''medium'' 7 gen0 rnd0, BeginBattle True True True,
       StartBattle ''medium'' 8 gen0 rnd0, BeginBattle True True True] init_world)) = Some (Some 3) \<and>
   map_option timeRemaining (session_of (run
      [StartBattle ''medium'' 7 gen0 rnd0, BeginBattle True True True,
       StartBattle ''medium'' 8 gen0 rnd0, BeginBattle True True True] init_world)) = Some 600 \<and>
   map_option timeRemaining (session_of (run
      [StartBattle ''medium'' 7 gen0 rnd0, BeginBattle True True True,
       StartBattle ''medium'' 8 gen0 rnd0, BeginBattle True True True,
       Fire 0 ''t''] init_world)) = Some 599 \<and>
   map_option aiCellsFilled (session_of (run
      [StartBattle ''medium'' 7 gen0 rnd0, BeginBattle True True True,
       StartBattle ''medium'' 8 gen0 rnd0, BeginBattle True True True] init_world)) = Some 0 \<and>
   map_option aiCellsFilled (session_of (run
      [StartBattle ''medium'' 7 gen0 rnd0, BeginBattle True True True,
       StartBattle ''medium'' 8 gen0 rnd0, BeginBattle True True True,
       Fire 1 ''t''] init_world)) = Some 1"
proof -
  have a: "session_of (Inr world_superseded) = Some ((newSession ''medium'' 8 gen0 rnd0)
          \<lparr>started := True, timerIntervalId := Some 2, aiIntervalId := Some 3\<rparr>)"
    by (simp add: session_of_def world_superseded_def)
  have s: "[x1, x2, x3, x4, x5] = [x1, x2, x3, x4] @ [x5]" for x1 x2 x3 x4 x5 :: call by simp
  show ?thesis
    unfolding s run_snoc run_superseded
    by (simp add: a fire_stale_tick fire_stale_ai del: One_nat_def)
qed

section \<open>Player operations\<close>

lemma allFilled_iff:
  "allFilled b = (\<forall>i<9. \<forall>j<9. playerBoard b i j = solution b i j)"
  by (auto simp: allFilled_def list_all_iff)

lemma playerPlace_null:
  "battle w = None \<Longrightarrow> playerPlace r c v w = Inr (None, w)"
  "battle w = Some b \<Longrightarrow> ended b \<or> playerFinished b \<Longrightarrow> playerPlace r c v w = Inr (None, w)"
  "battle w = Some b \<Longrightarrow> r < 9 \<Longrightarrow> c < 9 \<Longrightarrow> original b r c \<noteq> 0 \<Longrightarrow>
     playerPlace r c v w = Inr (None, w)"
  by (auto simp: playerPlace_def grid_get_def)

lemma playerPlace_wrong:
  assumes "battle w = Some b" "\<not> ended b" "\<not> playerFinished b" "r < 9" "c < 9"
    "original b r c = 0" "solution b r c \<noteq> v"
  shows "playerPlace r c v w =
     Inr (Some \<lparr>isCorrect = False, finished = False\<rparr>,
          w\<lparr>battle := Some (b\<lparr>playerBoard := grid_set (playerBoard b) r c v,
                              playerMistakes := playerMistakes b + 1\<rparr>)\<rparr>)"
  using assms by (auto simp: playerPlace_def grid_get_def Let_def)

lemma playerPlace_right:
  assumes "battle w = Some b" "\<not> ended b" "\<not> playerFinished b" "r < 9" "c < 9"
    "original b r c = 0" "solution b r c = v"
  shows "playerPlace r c v w =
     (if allFilled (b\<lparr>playerBoard := grid_set (playerBoard b) r c v\<rparr>)
      then Inr (Some \<lparr>isCorrect = True, finished = True\<rparr>,
          w\<lparr>battle := Some (b\<lparr>playerBoard := grid_set (playerBoard b) r c v,
                              playerCellsFilled := playerCellsFilled b + 1,
                              playerFinished := True\<rparr>)\<rparr>)
      else Inr (Some \<lparr>isCorrect = True, finished = False\<rparr>,
          w\<lparr>battle := Some (b\<lparr>playerBoard := grid_set (playerBoard b) r c v,
                              playerCellsFilled := playerCellsFilled b + 1\<rparr>)\<rparr>))"
  using assms by (auto simp: playerPlace_def grid_get_def Let_def allFilled_def)

lemma playerPlace_out_of_range:
  assumes "battle w = Some b" "\<not> ended b" "\<not> playerFinished b"
  shows "9 \<le> r \<Longrightarrow> playerPlace r c v w = Inl TypeError"
    and "r < 9 \<Longrightarrow> 9 \<le> c \<Longrightarrow> playerPlace r c v w = Inr (None, w)"
  using assms by (simp_all add: playerPlace_def grid_get_def)

lemma playerPlace_cases:
  assumes "r < 9" "c < 9"
  shows "(case battle w of
           None \<Rightarrow> playerPlace r c v w = Inr (None, w)
         | Some b \<Rightarrow>
            if ended b \<or> playerFinished b \<or> original b r c \<noteq> 0
            then playerPlace r c v w = Inr (None, w)
            else \<exists>res b'. playerPlace r c v w = Inr (Some res, w\<lparr>battle := Some b'\<rparr>) \<and>
                   isCorrect res = (v = solution b r c) \<and>
                   playerBoard b' = (playerBoard b)(r := (playerBoard b r)(c := v)) \<and>
                   (if v = solution b r c
                    then finished res = (\<forall>i<9. \<forall>j<9. playerBoard b' i j = solution b i j) \<and>
                         b' = b\<lparr>playerBoard := playerBoard b',
                                playerCellsFilled := playerCellsFilled b + 1,
                                playerFinished := finished res\<rparr>
                    else \<not> finished res \<and>
                         b' = b\<lparr>playerBoard := playerBoard b',
                                playerMistakes := playerMistakes b + 1\<rparr>))"
proof (cases "battle w")
  case None
  then show ?thesis by (simp add: playerPlace_null)
next
  case (Some b)
  show ?thesis
  proof (cases "ended b \<or> playerFinished b \<or> original b r c \<noteq> 0")
    case True
    then have "playerPlace r c v w = Inr (None, w)"
      using Some assms playerPlace_null(2)[OF Some] playerPlace_null(3)[OF Some assms] by blast
    with Some True show ?thesis by simp
  next
    case False
    then have live: "\<not> ended b" "\<not> playerFinished b" "original b r c = 0" by simp_all
    define pb where "pb = (playerBoard b)(r := (playerBoard b r)(c := v))"
    have g: "grid_set (playerBoard b) r c v = pb" by (simp add: grid_set_def pb_def)
    have "\<exists>res b'. playerPlace r c v w = Inr (Some res, w\<lparr>battle := Some b'\<rparr>) \<and>
                   isCorrect res = (v = solution b r c) \<and>
                   playerBoard b' = pb \<and>
                   (if v = solution b r c
                    then finished res = (\<forall>i<9. \<forall>j<9. playerBoard b' i j = solution b i j) \<and>
                         b' = b\<lparr>playerBoard := playerBoard b',
                                playerCellsFilled := playerCellsFilled b + 1,
                                playerFinished := finished res\<rparr>
                    else \<not> finished res \<and>
                         b' = b\<lparr>playerBoard := playerBoard b',
                                playerMistakes := playerMistakes b + 1\<rparr>)"
    proof (cases "v = solution b r c")
      case False
      then have wrong: "solution b r c \<noteq> v" by simp
      define b' where "b' = b\<lparr>playerBoard := pb, playerMistakes := playerMistakes b + 1\<rparr>"
      have e: "playerPlace r c v w =
          Inr (Some \<lparr>isCorrect = False, finished = False\<rparr>, w\<lparr>battle := Some b'\<rparr>)"
        using playerPlace_wrong[OF Some live(1,2) assms live(3) wrong] by (simp add: g b'_def)
      show ?thesis
        by (rule exI[of _ "\<lparr>isCorrect = False, finished = False\<rparr>"], rule exI[of _ b'])
          (use e wrong in \<open>simp add: b'_def\<close>)
    next
      case True
      then have right: "solution b r c = v" by simp
      have af: "allFilled (b\<lparr>playerBoard := pb\<rparr>) = (\<forall>i<9. \<forall>j<9. pb i j = solution b i j)"
        by (simp add: allFilled_iff)
      define fin where "fin = allFilled (b\<lparr>playerBoard := pb\<rparr>)"
      define b' where "b' = b\<lparr>playerBoard := pb, playerCellsFilled := playerCellsFilled b + 1,
                              playerFinished := fin\<rparr>"
      have same: "b\<lparr>playerBoard := pb, playerCellsFilled := playerCellsFilled b + 1\<rparr>
            = b\<lparr>playerBoard := pb, playerCellsFilled := playerCellsFilled b + 1,
                playerFinished := False\<rparr>"
        using live(2) by (cases b) simp
      have e: "playerPlace r c v w =
          Inr (Some \<lparr>isCorrect = True, finished = fin\<rparr>, w\<lparr>battle := Some b'\<rparr>)"
      proof (cases fin)
        case True
        then show ?thesis
          using playerPlace_right[OF Some live(1,2) assms live(3) right]
          by (simp add: g b'_def fin_def)
      next
        case False
        then show ?thesis
          using playerPlace_right[OF Some live(1,2) assms live(3) right] same
          by (simp add: g b'_def fin_def)
      qed
      have f: "fin = (\<forall>i<9. \<forall>j<9. pb i j = solution b i j)"
        using af by (simp add: fin_def)
      show ?thesis
        by (rule exI[of _ "\<lparr>isCorrect = True, finished = fin\<rparr>"], rule exI[of _ b'])
          (use e right f in \<open>simp add: b'_def\<close>)
    qed
    then show ?thesis using Some False by (simp add: pb_def)
  qed
qed

text \<open>
  C6. For a cell of the grid (row and column below 9), \<open>playerPlace\<close> returns null
  exactly when there is no session, the session has ended, the player has finished, or
  the cell is original, and then the state is unchanged. Otherwise it writes the value
  into the player's board whatever it is and returns \<open>isCorrect\<close> as the comparison
  with the solution's value; a wrong value adds one to \<open>playerMistakes\<close> and changes
  nothing else; a correct value adds one to \<open>playerCellsFilled\<close>, and \<open>playerFinished\<close>
  and \<open>finished\<close> are set exactly if the board then agrees with the solution on all 81
  cells.
\<close>

theorem playerPlace_contract:
  assumes "r < 9" "c < 9"
  shows "((\<exists>w'. playerPlace r c v w = Inr (None, w')) =
            (battle w = None \<or>
             (\<exists>b. battle w = Some b \<and> (ended b \<or> playerFinished b \<or> original b r c \<noteq> 0)))) \<and>
         (case battle w of
           None \<Rightarrow> playerPlace r c v w = Inr (None, w)
         | Some b \<Rightarrow>
            if ended b \<or> playerFinished b \<or> original b r c \<noteq> 0
            then playerPlace r c v w = Inr (None, w)
            else \<exists>res b'. playerPlace r c v w = Inr (Some res, w\<lparr>battle := Some b'\<rparr>) \<and>
                   isCorrect res = (v = solution b r c) \<and>
                   playerBoard b' = (playerBoard b)(r := (playerBoard b r)(c := v)) \<and>
                   (if v = solution b r c
                    then finished res = (\<forall>i<9. \<forall>j<9. playerBoard b' i j = solution b i j) \<and>
                         b' = b\<lparr>playerBoard := playerBoard b',
                                playerCellsFilled := playerCellsFilled b + 1,
                                playerFinished := finished res\<rparr>
                    else \<not> finished res \<and>
                         b' = b\<lparr>playerBoard := playerBoard b',
                                playerMistakes := playerMistakes b + 1\<rparr>))"
proof (rule conjI)
  note main = playerPlace_cases[OF assms, of v w]
  show "(\<exists>w'. playerPlace r c v w = Inr (None, w')) =
            (battle w = None \<or>
             (\<exists>b. battle w = Some b \<and> (ended b \<or> playerFinished b \<or> original b r c \<noteq> 0)))"
  proof (cases "battle w")
    case None
    with main show ?thesis by simp
  next
    case (Some b)
    show ?thesis
    proof (cases "ended b \<or> playerFinished b \<or> original b r c \<noteq> 0")
      case True
      with main Some have "playerPlace r c v w = Inr (None, w)" by simp
      with Some True show ?thesis by auto
    next
      case False
      with main Some obtain res b' where
        "playerPlace r c v w = Inr (Some res, w\<lparr>battle := Some b'\<rparr>)" by auto
      with Some False show ?thesis by auto
    qed
  qed
  show "case battle w of
           None \<Rightarrow> playerPlace r c v w = Inr (None, w)
         | Some b \<Rightarrow>
            if ended b \<or> playerFinished b \<or> original b r c \<noteq> 0
            then playerPlace r c v w = Inr (None, w)
            else \<exists>res b'. playerPlace r c v w = Inr (Some res, w\<lparr>battle := Some b'\<rparr>) \<and>
                   isCorrect res = (v = solution b r c) \<and>
                   playerBoard b' = (playerBoard b)(r := (playerBoard b r)(c := v)) \<and>
                   (if v = solution b r c
                    then finished res = (\<forall>i<9. \<forall>j<9. playerBoard b' i j = solution b i j) \<and>
                         b' = b\<lparr>playerBoard := playerBoard b',
                                playerCellsFilled := playerCellsFilled b + 1,
                                playerFinished := finished res\<rparr>
                    else \<not> finished res \<and>
                         b' = b\<lparr>playerBoard := playerBoard b',
                                playerMistakes := playerMistakes b + 1\<rparr>)"
    by (rule main)
qed

theorem playerPlace_contract_witness:
  "(0::nat) < 9 \<and> (2::nat) < 9 \<and> battle world1 = Some session1 \<and>
   playerPlace 0 0 5 world1 = Inr (None, world1) \<and>
   (\<exists>w'. playerPlace 0 2 9 world1 = Inr (Some \<lparr>isCorrect = False, finished = False\<rparr>, w'))"
proof -
  have r: "(0::nat) < 9" "(2::nat) < 9" by simp_all
  have o: "original session1 0 0 \<noteq> 0" "original session1 0 2 = 0" "solution session1 0 2 \<noteq> 9"
    by (simp_all add: session1_flags grid0_cells)
  from playerPlace_contract[OF r(1) r(1), of 5 world1] world1_battle o(1)
  have a: "playerPlace 0 0 5 world1 = Inr (None, world1)" by simp
  from playerPlace_contract[OF r(1) r(2), of 9 world1] world1_battle o(2,3) session1_flags(1,2)
  obtain res b' where "playerPlace 0 2 9 world1 = Inr (Some res, world1\<lparr>battle := Some b'\<rparr>)"
    "\<not> isCorrect res" "\<not> finished res" by auto
  then have "\<exists>w'. playerPlace 0 2 9 world1 = Inr (Some \<lparr>isCorrect = False, finished = False\<rparr>, w')"
    by (cases res) auto
  with r a world1_battle show ?thesis by simp
qed

subsection \<open>The filled-cell counter\<close>

lemma cells81: "List.product [0..<9] [0..<9] =
  [(0,0),(0,1),(0,2),(0,3),(0,4),(0,5),(0,6),(0,7),(0,8),
   (1,0),(1,1),(1,2),(1,3),(1,4),(1,5),(1,6),(1,7),(1,8),
   (2,0),(2,1),(2,2),(2,3),(2,4),(2,5),(2,6),(2,7),(2,8),
   (3,0),(3,1),(3,2),(3,3),(3,4),(3,5),(3,6),(3,7),(3,8),
   (4,0),(4,1),(4,2),(4,3),(4,4),(4,5),(4,6),(4,7),(4,8),
   (5,0),(5,1),(5,2),(5,3),(5,4),(5,5),(5,6),(5,7),(5,8),
   (6,0),(6,1),(6,2),(6,3),(6,4),(6,5),(6,6),(6,7),(6,8),
   (7,0),(7,1),(7,2),(7,3),(7,4),(7,5),(7,6),(7,7),(7,8),
   (8,0),(8,1),(8,2),(8,3),(8,4),(8,5),(8,6),(8,7),(8,8)]"
  by (simp add: upt_rec)

lemma not_allFilledI: "i < 9 \<Longrightarrow> j < 9 \<Longrightarrow> playerBoard b i j \<noteq> solution b i j \<Longrightarrow> \<not> allFilled b"
  by (auto simp: allFilled_iff)

text \<open>One placement as a step of a run, on a live session with the target cell empty in the puzzle.\<close>

lemma step_place_right:
  assumes "battle w = Some b" "\<not> ended b" "\<not> playerFinished b" "r < 9" "c < 9"
    "original b r c = 0" "solution b r c = v"
    "\<not> allFilled (b\<lparr>playerBoard := grid_set (playerBoard b) r c v\<rparr>)"
  shows "step (PlayerPlace r c v) w =
     Inr (w\<lparr>battle := Some (b\<lparr>playerBoard := grid_set (playerBoard b) r c v,
                              playerCellsFilled := playerCellsFilled b + 1\<rparr>)\<rparr>)"
  using playerPlace_right[OF assms(1-7)] assms(8) by simp

lemma step_place_last:
  assumes "battle w = Some b" "\<not> ended b" "\<not> playerFinished b" "r < 9" "c < 9"
    "original b r c = 0" "solution b r c = v"
    "allFilled (b\<lparr>playerBoard := grid_set (playerBoard b) r c v\<rparr>)"
  shows "step (PlayerPlace r c v) w =
     Inr (w\<lparr>battle := Some (b\<lparr>playerBoard := grid_set (playerBoard b) r c v,
                              playerCellsFilled := playerCellsFilled b + 1,
                              playerFinished := True\<rparr>)\<rparr>)"
  using playerPlace_right[OF assms(1-7)] assms(8) by simp

lemma step_place_wrong:
  assumes "battle w = Some b" "\<not> ended b" "\<not> playerFinished b" "r < 9" "c < 9"
    "original b r c = 0" "solution b r c \<noteq> v"
  shows "step (PlayerPlace r c v) w =
     Inr (w\<lparr>battle := Some (b\<lparr>playerBoard := grid_set (playerBoard b) r c v,
                              playerMistakes := playerMistakes b + 1\<rparr>)\<rparr>)"
  using playerPlace_wrong[OF assms] by simp

text \<open>
  C3 fails on the code: \<open>playerCellsFilled\<close> is not the number of non-original cells
  that agree with the solution. On a fresh session of the concrete puzzle, placing the
  correct value 4 at row 0, column 2 twice leaves the counter at 2 with one agreeing cell;
  placing 4 and then the wrong value 9 there leaves it at 1 with none.
\<close>

theorem playerCellsFilled_miscounts:
  "map_option playerCellsFilled (session_of (run
     [StartBattle ''medium'' 7 gen0 rnd0, PlayerPlace 0 2 4, PlayerPlace 0 2 4] init_world)) = Some 2 \<and>
   map_option correctCells (session_of (run
     [StartBattle ''medium'' 7 gen0 rnd0, PlayerPlace 0 2 4, PlayerPlace 0 2 4] init_world)) = Some 1 \<and>
   map_option playerCellsFilled (session_of (run
     [StartBattle ''medium'' 7 gen0 rnd0, PlayerPlace 0 2 4, PlayerPlace 0 2 9] init_world)) = Some 1 \<and>
   map_option correctCells (session_of (run
     [StartBattle ''medium'' 7 gen0 rnd0, PlayerPlace 0 2 4, PlayerPlace 0 2 9] init_world)) = Some 0"
proof -
  define b0 where "b0 = newSession ''medium'' 7 gen0 rnd0"
  define b1 where "b1 = b0\<lparr>playerBoard := grid_set puzzle0 0 2 4, playerCellsFilled := 1\<rparr>"
  define b2 where "b2 = b0\<lparr>playerBoard := grid_set puzzle0 0 2 4, playerCellsFilled := 2\<rparr>"
  define b3 where "b3 = b0\<lparr>playerBoard := grid_set puzzle0 0 2 9, playerCellsFilled := 1,
                            playerMistakes := 1\<rparr>"
  define w0 where "w0 = init_world\<lparr>battle := Some b0\<rparr>"
  have f0: "original b0 = puzzle0" "solution b0 = solution0" "playerBoard b0 = puzzle0"
    "\<not> ended b0" "\<not> playerFinished b0" "playerCellsFilled b0 = 0" "playerMistakes b0 = 0"
    by (simp_all add: b0_def gen0_def)
  have f1: "original b1 = puzzle0" "solution b1 = solution0"
    "playerBoard b1 = grid_set puzzle0 0 2 4"
    "\<not> ended b1" "\<not> playerFinished b1" "playerCellsFilled b1 = 1" "playerMistakes b1 = 0"
    by (simp_all add: b1_def f0)
  have gs: "grid_set (grid_set puzzle0 0 2 4) 0 2 x = grid_set puzzle0 0 2 x" for x
    by (simp add: grid_set_def)
  have s0: "step (StartBattle ''medium'' 7 gen0 rnd0) init_world = Inr w0"
    by (simp add: startBattle_def w0_def b0_def)
  have n0: "\<not> allFilled (b0\<lparr>playerBoard := grid_set (playerBoard b0) 0 2 4\<rparr>)"
    by (rule not_allFilledI[of 0 3]) (simp_all add: f0 grid_set_def grid0_cells)
  have n1: "\<not> allFilled (b1\<lparr>playerBoard := grid_set (playerBoard b1) 0 2 4\<rparr>)"
    by (rule not_allFilledI[of 0 3]) (simp_all add: f1 grid_set_def grid0_cells)
  have w0b: "battle w0 = Some b0" by (simp add: w0_def)
  have "step (PlayerPlace 0 2 4) w0 =
      Inr (w0\<lparr>battle := Some (b0\<lparr>playerBoard := grid_set (playerBoard b0) 0 2 4,
                              playerCellsFilled := playerCellsFilled b0 + 1\<rparr>)\<rparr>)"
    by (rule step_place_right[OF w0b f0(4) f0(5) _ _ _ _ n0]) (simp_all add: f0 grid0_cells)
  then have s1: "step (PlayerPlace 0 2 4) w0 = Inr (w0\<lparr>battle := Some b1\<rparr>)"
    by (simp add: f0 b1_def)
  have w1b: "battle (w0\<lparr>battle := Some b1\<rparr>) = Some b1" by simp
  have "step (PlayerPlace 0 2 4) (w0\<lparr>battle := Some b1\<rparr>) =
      Inr (w0\<lparr>battle := Some b1\<rparr>\<lparr>battle := Some (b1\<lparr>playerBoard := grid_set (playerBoard b1) 0 2 4,
                              playerCellsFilled := playerCellsFilled b1 + 1\<rparr>)\<rparr>)"
    by (rule step_place_right[OF w1b f1(4) f1(5) _ _ _ _ n1]) (simp_all add: f1 grid0_cells)
  then have s2: "step (PlayerPlace 0 2 4) (w0\<lparr>battle := Some b1\<rparr>) = Inr (w0\<lparr>battle := Some b2\<rparr>)"
    by (simp add: f1 gs) (simp add: b1_def b2_def)
  have "step (PlayerPlace 0 2 9) (w0\<lparr>battle := Some b1\<rparr>) =
      Inr (w0\<lparr>battle := Some b1\<rparr>\<lparr>battle := Some (b1\<lparr>playerBoard := grid_set (playerBoard b1) 0 2 9,
                              playerMistakes := playerMistakes b1 + 1\<rparr>)\<rparr>)"
    by (rule step_place_wrong[OF w1b f1(4) f1(5)]) (simp_all add: f1 grid0_cells)
  then have s3: "step (PlayerPlace 0 2 9) (w0\<lparr>battle := Some b1\<rparr>) = Inr (w0\<lparr>battle := Some b3\<rparr>)"
    by (simp add: f1 gs) (simp add: b1_def b3_def)
  have r1: "run [StartBattle ''medium'' 7 gen0 rnd0, PlayerPlace 0 2 4, PlayerPlace 0 2 4] init_world
      = Inr (w0\<lparr>battle := Some b2\<rparr>)"
    by (simp only: run.simps s0 s1 s2 sum.case)
  have r2: "run [StartBattle ''medium'' 7 gen0 rnd0, PlayerPlace 0 2 4, PlayerPlace 0 2 9] init_world
      = Inr (w0\<lparr>battle := Some b3\<rparr>)"
    by (simp only: run.simps s0 s1 s3 sum.case)
  have c2: "correctCells b2 = 1"
    by (simp add: correctCells_def cells81 b2_def f0 grid_set_def puzzle0_def solution0_def
        grid_of_rows_def)
  have c3: "correctCells b3 = 0"
    by (simp add: correctCells_def cells81 b3_def f0 grid_set_def puzzle0_def solution0_def
        grid_of_rows_def)
  have p2: "playerCellsFilled b2 = 2" by (simp add: b2_def)
  have p3: "playerCellsFilled b3 = 1" by (simp add: b3_def)
  show ?thesis unfolding r1 r2 by (simp add: session_of_def c2 c3 p2 p3)
qed

section \<open>Quitting\<close>

text \<open>
  C5 as stated fails. On the puzzle with two empty cells the player places both correct
  values, which sets \<open>playerFinished\<close> and leaves the session live; \<open>quitBattle\<close> then
  ends it as a win with +25.
\<close>

theorem quitBattle_after_finish_wins:
  "map_option ended (session_of (run
     [StartBattle ''easy'' 7 gen1 rnd0, BeginBattle True True True,
      PlayerPlace 0 2 4, PlayerPlace 4 4 5] init_world)) = Some False \<and>
   map_option result (session_of (run
     [StartBattle ''easy'' 7 gen1 rnd0, BeginBattle True True True,
      PlayerPlace 0 2 4, PlayerPlace 4 4 5, QuitBattle True ''t''] init_world)) = Some (Some win) \<and>
   map_option eloDelta (session_of (run
     [StartBattle ''easy'' 7 gen1 rnd0, BeginBattle True True True,
      PlayerPlace 0 2 4, PlayerPlace 4 4 5, QuitBattle True ''t''] init_world)) = Some 25"
proof -
  define c0 where "c0 = newSession ''easy'' 7 gen1 rnd0"
  define c1 where "c1 = c0\<lparr>started := True, timerIntervalId := Some 0, aiIntervalId := Some 1\<rparr>"
  define c2 where "c2 = c1\<lparr>playerBoard := grid_set puzzle1 0 2 4, playerCellsFilled := 1\<rparr>"
  define c3 where "c3 = c2\<lparr>playerBoard := grid_set (grid_set puzzle1 0 2 4) 4 4 5,
                            playerCellsFilled := 2, playerFinished := True\<rparr>"
  define w0 where "w0 = init_world\<lparr>battle := Some c0\<rparr>"
  define w1 where "w1 = init_world\<lparr>timers :=
              [\<lparr>tid = 0, repeating = True, handler = TimerTick True True\<rparr>,
               \<lparr>tid = 1, repeating = False, handler = AIStep True True\<rparr>],
            nextTimerId := 2, battle := Some c1\<rparr>"
  have f0: "original c0 = puzzle1" "solution c0 = solution0" "playerBoard c0 = puzzle1"
    "\<not> ended c0" "\<not> playerFinished c0" "playerCellsFilled c0 = 0" "\<not> started c0"
    "\<not> aiFinished c0"
    by (simp_all add: c0_def gen1_def)
  have f1: "original c1 = puzzle1" "solution c1 = solution0" "playerBoard c1 = puzzle1"
    "\<not> ended c1" "\<not> playerFinished c1" "playerCellsFilled c1 = 0"
    by (simp_all add: c1_def f0)
  have f2: "original c2 = puzzle1" "solution c2 = solution0"
    "playerBoard c2 = grid_set puzzle1 0 2 4"
    "\<not> ended c2" "\<not> playerFinished c2" "playerCellsFilled c2 = 1"
    by (simp_all add: c2_def f1)
  have f3: "\<not> ended c3" "playerFinished c3" by (simp_all add: c3_def f2)
  have p1: "puzzle1 0 2 = 0" "puzzle1 4 4 = 0"
    by (simp_all add: puzzle1_def grid_set_def)
  have full: "grid_set (grid_set puzzle1 0 2 4) 4 4 5 i j = solution0 i j" for i j
    using grid0_cells(2,5) by (simp add: puzzle1_def grid_set_def)
  have s0: "step (StartBattle ''easy'' 7 gen1 rnd0) init_world = Inr w0"
    by (simp add: startBattle_def w0_def c0_def)
  have w0b: "battle w0 = Some c0" by (simp add: w0_def)
  have "step (BeginBattle True True True) w0 =
     Inr (w0\<lparr>timers := timers w0 @
              [\<lparr>tid = nextTimerId w0, repeating = True, handler = TimerTick True True\<rparr>,
               \<lparr>tid = Suc (nextTimerId w0), repeating = False, handler = AIStep True True\<rparr>],
            nextTimerId := Suc (Suc (nextTimerId w0)),
            battle := Some (c0\<lparr>started := True, timerIntervalId := Some (nextTimerId w0),
                             aiIntervalId := Some (Suc (nextTimerId w0))\<rparr>)\<rparr>)"
    using beginBattle_fresh[OF w0b f0(7) f0(4) f0(8), of True True True] by simp
  then have s1: "step (BeginBattle True True True) w0 = Inr w1"
    by (simp add: w0_def w1_def c1_def init_world_def)
  have w1b: "battle w1 = Some c1" by (simp add: w1_def)
  have n1: "\<not> allFilled (c1\<lparr>playerBoard := grid_set (playerBoard c1) 0 2 4\<rparr>)"
    by (rule not_allFilledI[of 4 4]) (simp_all add: f1 grid_set_def p1 grid0_cells)
  have "step (PlayerPlace 0 2 4) w1 =
      Inr (w1\<lparr>battle := Some (c1\<lparr>playerBoard := grid_set (playerBoard c1) 0 2 4,
                              playerCellsFilled := playerCellsFilled c1 + 1\<rparr>)\<rparr>)"
    by (rule step_place_right[OF w1b f1(4) f1(5) _ _ _ _ n1]) (simp_all add: f1 p1 grid0_cells)
  then have s2: "step (PlayerPlace 0 2 4) w1 = Inr (w1\<lparr>battle := Some c2\<rparr>)"
    by (simp add: f1 c2_def)
  have w2b: "battle (w1\<lparr>battle := Some c2\<rparr>) = Some c2" by simp
  have a2: "allFilled (c2\<lparr>playerBoard := grid_set (playerBoard c2) 4 4 5\<rparr>)"
    by (simp add: allFilled_iff f2 full)
  have o2: "original c2 4 4 = 0" by (simp add: f2 p1)
  have v2: "solution c2 4 4 = 5" by (simp add: f2 grid0_cells)
  have "step (PlayerPlace 4 4 5) (w1\<lparr>battle := Some c2\<rparr>) =
      Inr (w1\<lparr>battle := Some c2\<rparr>\<lparr>battle := Some (c2\<lparr>playerBoard := grid_set (playerBoard c2) 4 4 5,
                              playerCellsFilled := playerCellsFilled c2 + 1,
                              playerFinished := True\<rparr>)\<rparr>)"
    by (rule step_place_last[OF w2b f2(4) f2(5) _ _ o2 v2 a2]) simp_all
  then have s3: "step (PlayerPlace 4 4 5) (w1\<lparr>battle := Some c2\<rparr>) = Inr (w1\<lparr>battle := Some c3\<rparr>)"
    by (simp add: f2 c3_def)
  have r4: "run [StartBattle ''easy'' 7 gen1 rnd0, BeginBattle True True True,
      PlayerPlace 0 2 4, PlayerPlace 4 4 5] init_world = Inr (w1\<lparr>battle := Some c3\<rparr>)"
    by (simp only: run.simps s0 s1 s2 s3 sum.case)
  have l5: "[x1, x2, x3, x4, x5] = [x1, x2, x3, x4] @ [x5]" for x1 x2 x3 x4 x5 :: call by simp
  have w3b: "battle (w1\<lparr>battle := Some c3\<rparr>) = Some c3" by simp
  from quitBattle_live[OF w3b f3(1), of True "''t''"] f3(2)
  obtain w' b' where q: "quitBattle True ''t'' (w1\<lparr>battle := Some c3\<rparr>) = Inr w'"
    "battle w' = Some b'" "result b' = Some win" "eloDelta b' = 25" by auto
  have r5: "run [StartBattle ''easy'' 7 gen1 rnd0, BeginBattle True True True,
      PlayerPlace 0 2 4, PlayerPlace 4 4 5, QuitBattle True ''t''] init_world = Inr w'"
    unfolding l5 run_snoc r4 by (simp add: q)
  show ?thesis unfolding r4 r5 by (simp add: session_of_def q f3)
qed

text \<open>
  C5 (as amended). On a live session \<open>quitBattle\<close> ends the battle; it is scored lose
  and -25 unless \<open>playerFinished\<close> is already set, in which case the first case of the
  termination rule applies and it is scored win and +25.
\<close>

theorem quitBattle_scoring:
  assumes "battle w = Some b" "\<not> ended b"
  shows "\<exists>w' b'. quitBattle cb now w = Inr w' \<and> battle w' = Some b' \<and> ended b' \<and>
     (result b', eloDelta b') = (if playerFinished b then (Some win, 25) else (Some lose, - 25))"
  using assms by (rule quitBattle_live)

theorem quitBattle_scoring_witness:
  "battle world1 = Some session1 \<and> \<not> ended session1 \<and> \<not> playerFinished session1 \<and>
   map_option result (session_of (quitBattle True ''t'' world1)) = Some (Some lose) \<and>
   map_option eloDelta (session_of (quitBattle True ''t'' world1)) = Some (- 25)"
proof -
  from quitBattle_scoring[OF world1_battle session1_flags(1), of True "''t''"] session1_flags(2)
  obtain w' b' where "quitBattle True ''t'' world1 = Inr w'" "battle w' = Some b'"
    "result b' = Some lose" "eloDelta b' = - 25" by auto
  then show ?thesis using world1_battle session1_flags(1,2) by (simp add: session_of_def)
qed

end
